theory Spec2Isabelle
  imports Complex_Main "HOL-Library.Sublist" "HOL-Library.List_Lexorder"
begin

section \<open>Python values\<close>

text \<open>
  A Python \<open>str\<close> is a sequence of Unicode code points, so it is modelled as a list of
  natural numbers: slices and lengths count code points, and the literals of the source
  that lie outside ASCII (the warning sign of the caveat, the bullet of the glossary
  block) are written as their code points. \<open>ascii\<close> embeds an ASCII literal.
\<close>

type_synonym pystr = "nat list"

definition ascii :: "string \<Rightarrow> pystr" where
  "ascii s = map of_char s"

text \<open>\<open>needle in text\<close> on strings: \<open>needle\<close> occurs as a contiguous block.\<close>

definition contains :: "pystr \<Rightarrow> pystr \<Rightarrow> bool" where
  "contains needle text = sublist needle text"

text \<open>
  \<open>str.isspace\<close> for one code point: the characters \<open>str.strip()\<close> removes.
\<close>

definition is_space :: "nat \<Rightarrow> bool" where
  "is_space c \<longleftrightarrow>
     (9 \<le> c \<and> c \<le> 13) \<or> (28 \<le> c \<and> c \<le> 32) \<or> c = 133 \<or> c = 160 \<or> c = 5760 \<or>
     (8192 \<le> c \<and> c \<le> 8202) \<or> c = 8232 \<or> c = 8233 \<or> c = 8239 \<or> c = 8287 \<or> c = 12288"

definition py_strip :: "pystr \<Rightarrow> pystr" where
  "py_strip s = rev (dropWhile is_space (rev (dropWhile is_space s)))"

text \<open>
  \<open>str.lower()\<close>, which replaces every code point by its lower-case mapping. Three
  kinds of code points have a mapping that contains an ASCII character: the letters \<open>A\<close>
  to \<open>Z\<close> become \<open>a\<close> to \<open>z\<close>, the Kelvin sign U+212A becomes \<open>k\<close>, and the dotted capital
  I, U+0130, becomes \<open>i\<close> followed by the combining dot U+0307. Every other code point
  outside ASCII is mapped to one or more code points outside ASCII; the model keeps it
  as it is. The program only ever asks whether the lower-cased string contains an ASCII
  keyword, and the answer to that does not depend on which code points outside ASCII
  stand between the ASCII ones.
\<close>

definition lower_char :: "nat \<Rightarrow> nat list" where
  "lower_char c =
     (if 65 \<le> c \<and> c \<le> 90 then [c + 32]
      else if c = 8490 then [107]
      else if c = 304 then [105, 775]
      else [c])"

definition py_lower :: "pystr \<Rightarrow> pystr" where
  "py_lower s = concat (map lower_char s)"

text \<open>\<open>s.split("\n")\<close>: the maximal newline-free pieces of \<open>s\<close>, at least one.\<close>

fun split_nl :: "pystr \<Rightarrow> pystr list" where
  "split_nl [] = [[]]"
| "split_nl (c # cs) =
     (if c = 10 then [] # split_nl cs
      else (case split_nl cs of l # ls \<Rightarrow> (c # l) # ls | [] \<Rightarrow> [[c]]))"

text \<open>\<open>sep.join(parts)\<close>.\<close>

fun py_join :: "pystr \<Rightarrow> pystr list \<Rightarrow> pystr" where
  "py_join sep [] = []"
| "py_join sep [p] = p"
| "py_join sep (p # q # ps) = p @ sep @ py_join sep (q # ps)"

text \<open>
  \<open>sorted(xs, key=f, reverse=True)\<close> and \<open>xs.sort(key=f, reverse=True)\<close>: CPython
  reverses the list, sorts it stably in ascending order of the key and reverses the
  result, so that elements with equal keys keep their original order.
\<close>

definition py_sorted_reverse :: "('a \<Rightarrow> 'k::linorder) \<Rightarrow> 'a list \<Rightarrow> 'a list" where
  "py_sorted_reverse f xs = rev (sort_key f (rev xs))"

text \<open>The values a metadata dictionary holds.\<close>

datatype meta_value = MStr pystr | MBool bool

text \<open>\<open>str(v)\<close>, as an f-string renders a metadata value.\<close>

fun py_str :: "meta_value \<Rightarrow> pystr" where
  "py_str (MStr s) = s"
| "py_str (MBool b) = (if b then ascii ''True'' else ascii ''False'')"

text \<open>
  A LangChain \<open>Document\<close>: the text and the metadata dictionary, the latter as an
  association list read with \<open>map_of\<close>.
\<close>

record document =
  page_content :: pystr
  metadata :: "(pystr \<times> meta_value) list"

definition meta_get :: "document \<Rightarrow> string \<Rightarrow> meta_value \<Rightarrow> meta_value" where
  "meta_get doc key dflt = (case map_of (metadata doc) (ascii key) of None \<Rightarrow> dflt | Some v \<Rightarrow> v)"

section \<open>The outside world\<close>

text \<open>
  The language model, the vector store and the random source are not part of the
  program. Each is a function on an external state \<open>'s\<close> that returns its answer and the
  next state, so that two calls with the same arguments may answer differently; a call
  that raises returns \<open>Inl\<close>. The world of a run also keeps the list of prompts sent to
  the language model so far. A handler \<open>except Exception\<close> catches every exception such
  a call raises. What the program prints is not modelled.
\<close>

datatype py_exception = ZeroDivisionError | OverflowError | ExternalError pystr

text \<open>
  The four prompt templates, each with the variables it is filled with:
  query expansion (question, n), relevance grading (document, question), grounding
  check (documents, answer) and answer generation (question, child context, parent
  context, definitions).
\<close>

datatype prompt =
    MultiQueryPrompt pystr nat
  | RelevancePrompt pystr pystr
  | HallucinationPrompt pystr pystr
  | RagPrompt pystr pystr pystr pystr

type_synonym ('s, 'a) ext_call = "'s \<Rightarrow> (py_exception + 'a) \<times> 's"

type_synonym 's llm = "prompt \<Rightarrow> ('s, pystr) ext_call"

record 's world =
  ext :: 's
  llm_log :: "prompt list"

text \<open>\<open>chain.invoke(...)\<close> for a chain \<open>prompt | llm | StrOutputParser()\<close>.\<close>

definition invoke :: "'s llm \<Rightarrow> prompt \<Rightarrow> 's world \<Rightarrow> (py_exception + pystr) \<times> 's world" where
  "invoke l p w =
     (case l p (ext w) of (r, s') \<Rightarrow> (r, \<lparr>ext = s', llm_log = llm_log w @ [p]\<rparr>))"

text \<open>A call of the vector store: it moves the external state only.\<close>

definition ext_run :: "('s, 'a) ext_call \<Rightarrow> 's world \<Rightarrow> (py_exception + 'a) \<times> 's world" where
  "ext_run f w = (case f (ext w) of (r, s') \<Rightarrow> (r, w\<lparr>ext := s'\<rparr>))"

section \<open>rag\_chain.py: grading\<close>

text \<open>
  The body of the \<open>try\<close> in \<open>grade_relevance\<close> after the model has answered:
  \<open>text = result.strip().lower()\<close>, then
  \<open>"not_relevant" not in text and "relevant" in text\<close>.
\<close>

definition says_relevant :: "pystr \<Rightarrow> bool" where
  "says_relevant result =
     (let text = py_lower (py_strip result)
      in \<not> contains (ascii ''not_relevant'') text \<and> contains (ascii ''relevant'') text)"

text \<open>
  Whether the loop appends the document, from the outcome of its grading call: the
  \<open>except\<close> branch appends it.
\<close>

fun keeps :: "py_exception + pystr \<Rightarrow> bool" where
  "keeps (Inl e) = True"
| "keeps (Inr result) = says_relevant result"

text \<open>
  The loop of \<open>grade_relevance\<close>: one grading call per document, on the first 800
  characters of its text, in the order of the list. It returns the list \<open>relevant\<close>.
\<close>

fun grade_loop :: "'s llm \<Rightarrow> pystr \<Rightarrow> document list \<Rightarrow> 's world \<Rightarrow> document list \<times> 's world" where
  "grade_loop l question [] w = ([], w)"
| "grade_loop l question (doc # docs) w =
     (case invoke l (RelevancePrompt (take 800 (page_content doc)) question) w of
        (r, w1) \<Rightarrow>
          (case grade_loop l question docs w1 of
             (relevant, w2) \<Rightarrow> (if keeps r then doc # relevant else relevant, w2)))"

text \<open>\<open>return relevant if relevant else docs\<close>.\<close>

definition grade_relevance :: "'s llm \<Rightarrow> document list \<Rightarrow> pystr \<Rightarrow> 's world \<Rightarrow> document list \<times> 's world" where
  "grade_relevance l docs question w =
     (case grade_loop l question docs w of
        (relevant, w') \<Rightarrow> (if relevant \<noteq> [] then relevant else docs, w'))"

text \<open>
  The outcomes of the grading calls of one run of \<open>grade_relevance\<close>, document by
  document: what the model answered, or that the call raised.
\<close>

fun grading_outcomes :: "'s llm \<Rightarrow> pystr \<Rightarrow> document list \<Rightarrow> 's world \<Rightarrow> (py_exception + pystr) list" where
  "grading_outcomes l question [] w = []"
| "grading_outcomes l question (doc # docs) w =
     (case invoke l (RelevancePrompt (take 800 (page_content doc)) question) w of
        (r, w1) \<Rightarrow> r # grading_outcomes l question docs w1)"

text \<open>The documents of a run that the loop appended: those whose outcome \<open>keeps\<close>.\<close>

definition graded_relevant :: "document list \<Rightarrow> (py_exception + pystr) list \<Rightarrow> document list" where
  "graded_relevant docs outcomes = map fst (filter (\<lambda>(d, r). keeps r) (zip docs outcomes))"

section \<open>config.py\<close>

definition TOP_K :: nat where "TOP_K = 5"
definition MULTI_QUERY_COUNT :: nat where "MULTI_QUERY_COUNT = 3"
definition RRF_K :: int where "RRF_K = 60"
definition CHILD_CHUNK_SIZE :: nat where "CHILD_CHUNK_SIZE = 500"
definition CHILD_CHUNK_OVERLAP :: nat where "CHILD_CHUNK_OVERLAP = 50"
definition PARENT_CHUNK_SIZE :: nat where "PARENT_CHUNK_SIZE = 2000"
definition PARENT_CHUNK_OVERLAP :: nat where "PARENT_CHUNK_OVERLAP = 200"
definition CHARS_PER_TOKEN :: nat where "CHARS_PER_TOKEN = 4"

section \<open>retriever.py\<close>

text \<open>
  The Chroma where-filters \<open>build_metadata_filter\<close> builds: one clause
  (\<open>{"audience": a}\<close>, \<open>{"is_latest": True}\<close>, \<open>{"status": "ACTIVE"}\<close>) or
  \<open>{"$and": clauses}\<close>.
\<close>

datatype clause = Audience pystr | Is_latest bool | Status pystr

datatype meta_filter = Where clause | Where_and "clause list"

text \<open>
  The retriever object. \<open>vectorstore q k f\<close> is
  \<open>self.vectorstore.similarity_search(q, k=k, filter=f)\<close>, \<open>definitions_store\<close> is
  \<open>None\<close> when the glossary collection could not be opened, \<open>parent_store\<close> is the
  dictionary from parent id to parent text, and \<open>dumps\<close>, \<open>loads\<close> are LangChain's
  serialiser of documents and its inverse.
\<close>

record 's retriever =
  r_llm :: "'s llm"
  vectorstore :: "pystr \<Rightarrow> nat \<Rightarrow> meta_filter option \<Rightarrow> ('s, document list) ext_call"
  definitions_store :: "(pystr \<Rightarrow> nat \<Rightarrow> ('s, document list) ext_call) option"
  parent_store :: "(pystr \<times> pystr) list"
  dumps :: "document \<Rightarrow> pystr"
  loads :: "pystr \<Rightarrow> document"

subsection \<open>Multi-query\<close>

text \<open>
  The last stage of the chain:
  \<open>[q.strip() for q in x.strip().split("\n") if q.strip()]\<close>.
\<close>

definition parse_queries :: "pystr \<Rightarrow> pystr list" where
  "parse_queries x = map py_strip (filter (\<lambda>q. py_strip q \<noteq> []) (split_nl (py_strip x)))"

text \<open>
  \<open>generate_multi_queries\<close>: the \<open>try\<close> returns the question followed by the first
  \<open>MULTI_QUERY_COUNT\<close> parsed lines, the \<open>except\<close> returns the question alone.
\<close>

definition generate_multi_queries ::
  "'s retriever \<Rightarrow> pystr \<Rightarrow> 's world \<Rightarrow> (py_exception + pystr list) \<times> 's world" where
  "generate_multi_queries r question w =
     (case invoke (r_llm r) (MultiQueryPrompt question MULTI_QUERY_COUNT) w of
        (Inr x, w') \<Rightarrow> (Inr ([question] @ take MULTI_QUERY_COUNT (parse_queries x)), w')
      | (Inl e, w') \<Rightarrow> (Inr [question], w'))"

subsection \<open>Python floats\<close>

text \<open>
  A Python float is an IEEE 754 double. A finite double is modelled by the rational
  number it stands for (the two zeros are one number). An arithmetic operation gives
  the exact result rounded to the nearest double, a tie going to the double with the
  even significand. The infinities and NaN are not part of the model: the fusion only
  adds quotients \<open>1.0 / n\<close> for integers \<open>n\<close>, which lie between \<open>-1\<close> and \<open>1\<close>, and a sum
  of such terms never leaves the finite doubles.

  \<open>bit_length n\<close> is \<open>int.bit_length\<close>, the number of binary digits of \<open>n\<close>.
\<close>

fun bit_length :: "nat \<Rightarrow> nat" where
  "bit_length n = (if n = 0 then 0 else Suc (bit_length (n div 2)))"

declare bit_length.simps [simp del]

definition pow2 :: "int \<Rightarrow> rat" where
  "pow2 e = (if 0 \<le> e then 2 ^ nat e else 1 / 2 ^ nat (- e))"

text \<open>
  The binary exponent of a positive number \<open>x\<close>: the \<open>e\<close> with
  \<open>2 ^ e \<le> x < 2 ^ (e + 1)\<close>. Below one it is read off from the integer part of \<open>1 / x\<close>,
  which has \<open>j + 1\<close> binary digits when \<open>2 ^ (- j - 1) < x \<le> 2 ^ (- j)\<close>.
\<close>

definition exponent_below :: "int \<Rightarrow> rat \<Rightarrow> int" where
  "exponent_below j x = (if x = pow2 (- j) then - j else - j - 1)"

definition exponent :: "rat \<Rightarrow> int" where
  "exponent x =
     (if 1 \<le> x then int (bit_length (nat \<lfloor>x\<rfloor>)) - 1
      else exponent_below (int (bit_length (nat \<lfloor>1 / x\<rfloor>)) - 1) x)"

text \<open>The integer nearest to \<open>x\<close>, the even one of the two when \<open>x\<close> lies half way.\<close>

definition nearest_even :: "int \<Rightarrow> rat \<Rightarrow> int" where
  "nearest_even n x =
     (if x - of_int n < 1 / 2 then n
      else if 1 / 2 < x - of_int n then n + 1
      else if even n then n else n + 1)"

definition round_half_even :: "rat \<Rightarrow> int" where
  "round_half_even x = nearest_even \<lfloor>x\<rfloor> x"

text \<open>
  The nearest double. A double of binary exponent \<open>e\<close> is a multiple of \<open>2 ^ (e - 52)\<close>
  (53 significant bits), and no double is finer than \<open>2 ^ (- 1074)\<close> (the subnormal
  numbers).
\<close>

definition round_to :: "int \<Rightarrow> rat \<Rightarrow> rat" where
  "round_to s a = of_int (round_half_even (a / pow2 s)) * pow2 s"

definition to_double :: "rat \<Rightarrow> rat" where
  "to_double x =
     (if x = 0 then 0
      else sgn x * round_to (max (exponent \<bar>x\<bar> - 52) (- 1074)) \<bar>x\<bar>)"

text \<open>\<open>a + b\<close> on floats.\<close>

definition float_add :: "rat \<Rightarrow> rat \<Rightarrow> rat" where
  "float_add a b = to_double (a + b)"

text \<open>
  \<open>1.0 / n\<close> for an integer \<open>n\<close>. The integer is first converted to a float, which
  raises \<open>OverflowError\<close> when the nearest double would be \<open>2 ^ 1024\<close> or more; division
  by zero raises \<open>ZeroDivisionError\<close>.
\<close>

definition int_to_float :: "int \<Rightarrow> py_exception + rat" where
  "int_to_float n =
     (if 2 ^ 1024 \<le> \<bar>to_double (of_int n)\<bar> then Inl OverflowError
      else Inr (to_double (of_int n)))"

definition float_recip :: "int \<Rightarrow> py_exception + rat" where
  "float_recip n =
     (case int_to_float n of
        Inl e \<Rightarrow> Inl e
      | Inr y \<Rightarrow> if y = 0 then Inl ZeroDivisionError else Inr (to_double (1 / y)))"

subsection \<open>Reciprocal rank fusion\<close>

text \<open>
  The scores are Python floats. The functions of the pipeline take the float
  arithmetic as a record of operations: \<open>f_zero\<close> is \<open>0.0\<close>, \<open>f_add\<close> is \<open>+\<close> and
  \<open>f_recip n\<close> is \<open>1.0 / n\<close> for an integer \<open>n\<close>, which may raise. The program runs with
  \<open>binary64\<close>, the arithmetic of doubles.
\<close>

record 'f float_ops =
  f_zero :: 'f
  f_add :: "'f \<Rightarrow> 'f \<Rightarrow> 'f"
  f_recip :: "int \<Rightarrow> py_exception + 'f"

definition binary64 :: "rat float_ops" where
  "binary64 = \<lparr>f_zero = 0, f_add = float_add, f_recip = float_recip\<rparr>"

text \<open>
  \<open>fused.setdefault(key, 0.0); fused[key] += x\<close> on a dictionary that keeps its keys in
  the order of their first insertion: a new key is appended with \<open>0.0 + x\<close>, a known
  key keeps its place and gets \<open>x\<close> added.
\<close>

definition fused_add :: "'f float_ops \<Rightarrow> (pystr \<times> 'f) list \<Rightarrow> pystr \<Rightarrow> 'f \<Rightarrow> (pystr \<times> 'f) list" where
  "fused_add fl fused key x =
     (if key \<notin> set (map fst fused) then fused @ [(key, f_add fl (f_zero fl) x)]
      else map (\<lambda>(k', v). if k' = key then (k', f_add fl v x) else (k', v)) fused)"

text \<open>
  \<open>for rank, doc in enumerate(docs)\<close>; an exception of \<open>1.0 / (rank + k)\<close> ends the
  function.
\<close>

fun rrf_ranks ::
  "'f float_ops \<Rightarrow> (document \<Rightarrow> pystr) \<Rightarrow> int \<Rightarrow> nat \<Rightarrow> document list \<Rightarrow> (pystr \<times> 'f) list \<Rightarrow>
   py_exception + (pystr \<times> 'f) list" where
  "rrf_ranks fl dmp k rank [] fused = Inr fused"
| "rrf_ranks fl dmp k rank (doc # docs) fused =
     (case f_recip fl (int rank + k) of
        Inl e \<Rightarrow> Inl e
      | Inr x \<Rightarrow> rrf_ranks fl dmp k (Suc rank) docs (fused_add fl fused (dmp doc) x))"

text \<open>\<open>for docs in result_lists\<close>.\<close>

fun rrf_lists ::
  "'f float_ops \<Rightarrow> (document \<Rightarrow> pystr) \<Rightarrow> int \<Rightarrow> document list list \<Rightarrow> (pystr \<times> 'f) list \<Rightarrow>
   py_exception + (pystr \<times> 'f) list" where
  "rrf_lists fl dmp k [] fused = Inr fused"
| "rrf_lists fl dmp k (docs # rest) fused =
     (case rrf_ranks fl dmp k 0 docs fused of
        Inl e \<Rightarrow> Inl e
      | Inr fused' \<Rightarrow> rrf_lists fl dmp k rest fused')"

text \<open>The dictionary \<open>fused\<close> when both loops are done.\<close>

definition rrf_fused ::
  "'f float_ops \<Rightarrow> (document \<Rightarrow> pystr) \<Rightarrow> document list list \<Rightarrow> int \<Rightarrow> py_exception + (pystr \<times> 'f) list" where
  "rrf_fused fl dmp result_lists k = rrf_lists fl dmp k result_lists []"

text \<open>
  \<open>reranked = sorted(fused.items(), key=lambda x: x[1], reverse=True)\<close> and
  \<open>[loads(doc_str) for doc_str, _ in reranked]\<close>.
\<close>

definition reciprocal_rank_fusion ::
  "('f::linorder) float_ops \<Rightarrow> (document \<Rightarrow> pystr) \<Rightarrow> (pystr \<Rightarrow> document) \<Rightarrow> document list list \<Rightarrow> int \<Rightarrow>
   py_exception + document list" where
  "reciprocal_rank_fusion fl dmp lds result_lists k =
     (case rrf_fused fl dmp result_lists k of
        Inl e \<Rightarrow> Inl e
      | Inr fused \<Rightarrow> Inr (map (\<lambda>(doc_str, _). lds doc_str) (py_sorted_reverse snd fused)))"

text \<open>
  Two readings of the scores, to compare the code with. An occurrence is a chunk's key
  (its serialisation) with its zero-based rank in one of the lists; the occurrences are
  listed in the order of the input, and the first-appearance order lists every key
  once, at its first occurrence.
\<close>

definition occurrences :: "(document \<Rightarrow> pystr) \<Rightarrow> document list list \<Rightarrow> (pystr \<times> nat) list" where
  "occurrences dmp result_lists =
     concat (map (\<lambda>docs. zip (map dmp docs) [0..<length docs]) result_lists)"

definition first_seen :: "'a list \<Rightarrow> 'a list" where
  "first_seen xs = rev (remdups (rev xs))"

text \<open>
  The value the two loops leave under a key, in any arithmetic: the quotients of the
  key's occurrences, \<open>recip n\<close> standing for \<open>1.0 / n\<close>, added one by one to \<open>0.0\<close>
  in the order of the occurrences.
\<close>

definition score_of :: "'f float_ops \<Rightarrow> (int \<Rightarrow> 'f) \<Rightarrow> int \<Rightarrow> (pystr \<times> nat) list \<Rightarrow> pystr \<Rightarrow> 'f" where
  "score_of fl recip k occs key =
     foldl (f_add fl) (f_zero fl)
       (map (\<lambda>(key', rank). recip (int rank + k)) (filter (\<lambda>(key', rank). key' = key) occs))"

text \<open>
  The specification's reading: the score of a key is the sum of \<open>1 / (rank + k)\<close> over
  its occurrences, a number; the ranking lists every key once by descending score,
  keys of equal score in the order of their first appearance.
\<close>

definition exact_score :: "(document \<Rightarrow> pystr) \<Rightarrow> document list list \<Rightarrow> int \<Rightarrow> pystr \<Rightarrow> rat" where
  "exact_score dmp result_lists k key =
     sum_list (map (\<lambda>(key', rank). 1 / of_int (int rank + k))
       (filter (\<lambda>(key', rank). key' = key) (occurrences dmp result_lists)))"

definition claimed_fusion ::
  "(document \<Rightarrow> pystr) \<Rightarrow> (pystr \<Rightarrow> document) \<Rightarrow> document list list \<Rightarrow> int \<Rightarrow> document list" where
  "claimed_fusion dmp lds result_lists k =
     map lds (py_sorted_reverse (exact_score dmp result_lists k)
       (first_seen (concat (map (map dmp) result_lists))))"

text \<open>
  The reading in floats: each quotient \<open>1.0 / (rank + k)\<close> is rounded to a double, and
  the quotients of a key are added one by one in the order of its occurrences, starting
  from \<open>0.0\<close>, every partial sum rounded to a double.
\<close>

definition float_score :: "(document \<Rightarrow> pystr) \<Rightarrow> document list list \<Rightarrow> int \<Rightarrow> pystr \<Rightarrow> rat" where
  "float_score dmp result_lists k key =
     foldl float_add 0
       (map (\<lambda>(key', rank). to_double (1 / of_int (int rank + k)))
         (filter (\<lambda>(key', rank). key' = key) (occurrences dmp result_lists)))"

subsection \<open>Metadata filter\<close>

definition audience_map :: "(string \<times> string) list" where
  "audience_map =
    [(''stock broker'', ''Stock Brokers''),
     (''mutual fund'', ''Mutual Funds''),
     (''depositor'', ''Depositories''),
     (''credit rating'', ''Credit Rating Agencies (CRAs)''),
     (''portfolio manager'', ''Portfolio Managers''),
     (''research analyst'', ''Research Analysts''),
     (''investment adviser'', ''Investment Advisers''),
     (''registrar'', ''Registrars to an Issue and Share Transfer Agents''),
     (''debenture trustee'', ''Debenture Trustees (DTs)''),
     (''stock exchange'', ''Stock Exchanges and Clearing Corporations''),
     (''clearing corporation'', ''Stock Exchanges and Clearing Corporations''),
     (''invit'', ''Infrastructure Investment Trusts (InvITs)''),
     (''reit'', ''Real Estate Investment Trusts (REITs)''),
     (''esg'', ''ESG Rating Providers (ERPs)''),
     (''social stock'', ''Social Stock Exchange''),
     (''listing obligation'', ''Listed Entities''),
     (''issue of capital'', ''Market Participants'')]"

text \<open>\<open>any(w in q for w in words)\<close>.\<close>

definition any_in :: "string list \<Rightarrow> pystr \<Rightarrow> bool" where
  "any_in words q = list_ex (\<lambda>w. contains (ascii w) q) words"

definition build_metadata_filter :: "pystr \<Rightarrow> meta_filter option" where
  "build_metadata_filter question =
     (let q = py_lower question;
          audience = (case filter (\<lambda>(kw, aud). contains (ascii kw) q) audience_map of
                        [] \<Rightarrow> []
                      | (kw, aud) # _ \<Rightarrow> [Audience (ascii aud)]);
          latest = (if any_in [''latest'', ''current'', ''most recent'', ''newest''] q
                    then [Is_latest True] else []);
          active = (if any_in [''active'', ''in force'', ''in effect''] q
                    then [Status (ascii ''ACTIVE'')] else []);
          clauses = audience @ latest @ active
      in case clauses of
           [] \<Rightarrow> None
         | [c] \<Rightarrow> Some (Where c)
         | _ \<Rightarrow> Some (Where_and clauses))"

subsection \<open>Parent and definitions context\<close>

text \<open>Python's truth value of a metadata value.\<close>

fun truthy :: "meta_value \<Rightarrow> bool" where
  "truthy (MStr s) = (s \<noteq> [])"
| "truthy (MBool b) = b"

text \<open>\<open>self.parent_store.get(pid, "")\<close>; the keys of the store are strings.\<close>

fun parent_store_get :: "(pystr \<times> pystr) list \<Rightarrow> meta_value \<Rightarrow> pystr" where
  "parent_store_get store (MStr pid) = (case map_of store pid of None \<Rightarrow> [] | Some t \<Rightarrow> t)"
| "parent_store_get store (MBool b) = []"

fun parent_loop :: "(pystr \<times> pystr) list \<Rightarrow> document list \<Rightarrow> meta_value list \<Rightarrow> pystr list" where
  "parent_loop store [] seen = []"
| "parent_loop store (doc # docs) seen =
     (let pid = meta_get doc ''parent_id'' (MStr [])
      in if truthy pid \<and> pid \<notin> set seen
         then (if parent_store_get store pid \<noteq> []
               then parent_store_get store pid # parent_loop store docs (pid # seen)
               else parent_loop store docs (pid # seen))
         else parent_loop store docs seen)"

definition get_parent_context :: "'s retriever \<Rightarrow> document list \<Rightarrow> pystr list" where
  "get_parent_context r child_docs = parent_loop (parent_store r) child_docs []"

definition get_definitions_context :: "'s retriever \<Rightarrow> pystr \<Rightarrow> 's world \<Rightarrow> pystr \<times> 's world" where
  "get_definitions_context r question w =
     (case definitions_store r of
        None \<Rightarrow> ([], w)
      | Some search \<Rightarrow>
          (case ext_run (search question 3) w of
             (Inr results, w') \<Rightarrow>
               (if results \<noteq> []
                then ([10] @ ascii ''**Relevant Regulatory Definitions:**'' @ [10] @
                      py_join [10] (map (\<lambda>d. [8226, 32] @ page_content d) results) @ [10], w')
                else ([], w'))
           | (Inl e, w') \<Rightarrow> ([], w')))"

subsection \<open>retrieve\<close>

text \<open>
  The handler of the search loop: one more unfiltered search; when that raises too, the
  query adds nothing to \<open>all_results\<close>.
\<close>

definition search_fallback ::
  "'s retriever \<Rightarrow> pystr \<Rightarrow> 's world \<Rightarrow> document list option \<times> 's world" where
  "search_fallback r q w =
     (case ext_run (vectorstore r q TOP_K None) w of
        (Inr docs, w') \<Rightarrow> (Some docs, w')
      | (Inl e, w') \<Rightarrow> (None, w'))"

text \<open>
  The body of the search loop for one query: what it appends to \<open>all_results\<close>, if
  anything. \<open>if meta_filter\<close> holds for every filter the builder returns.
\<close>

definition search_query ::
  "'s retriever \<Rightarrow> meta_filter option \<Rightarrow> pystr \<Rightarrow> 's world \<Rightarrow> document list option \<times> 's world" where
  "search_query r meta q w =
     (case meta of
        Some f \<Rightarrow>
          (case ext_run (vectorstore r q TOP_K (Some f)) w of
             (Inr docs, w1) \<Rightarrow>
               (if length docs < 2
                then (case ext_run (vectorstore r q TOP_K None) w1 of
                        (Inr docs', w2) \<Rightarrow> (Some docs', w2)
                      | (Inl e, w2) \<Rightarrow> search_fallback r q w2)
                else (Some docs, w1))
           | (Inl e, w1) \<Rightarrow> search_fallback r q w1)
      | None \<Rightarrow>
          (case ext_run (vectorstore r q TOP_K None) w of
             (Inr docs, w1) \<Rightarrow> (Some docs, w1)
           | (Inl e, w1) \<Rightarrow> search_fallback r q w1))"

text \<open>\<open>for q in queries\<close>: the list \<open>all_results\<close>.\<close>

fun search_loop ::
  "'s retriever \<Rightarrow> meta_filter option \<Rightarrow> pystr list \<Rightarrow> 's world \<Rightarrow> document list list \<times> 's world" where
  "search_loop r meta [] w = ([], w)"
| "search_loop r meta (q # qs) w =
     (case search_query r meta q w of
        (res, w1) \<Rightarrow>
          (case search_loop r meta qs w1 of
             (rest, w2) \<Rightarrow> ((case res of Some docs \<Rightarrow> docs # rest | None \<Rightarrow> rest), w2)))"

text \<open>The header and text of one child in \<open>child_context\<close>.\<close>

definition format_child :: "document \<Rightarrow> pystr" where
  "format_child doc =
     ascii ''[Source: '' @ py_str (meta_get doc ''source'' (MStr (ascii ''?''))) @
     ascii '' | Section: '' @ py_str (meta_get doc ''section'' (MStr (ascii ''N/A''))) @
     ascii '' | Date: '' @ py_str (meta_get doc ''date'' (MStr (ascii ''N/A''))) @
     ascii '' | Status: '' @ py_str (meta_get doc ''status'' (MStr (ascii ''N/A''))) @
     ascii '']'' @ [10] @ page_content doc"

text \<open>The separator \<open>"\n\n---\n\n"\<close>.\<close>

definition SEPARATOR :: pystr where
  "SEPARATOR = [10, 10] @ ascii ''---'' @ [10, 10]"

record retrieval =
  child_docs :: "document list"
  child_context :: pystr
  parent_context :: pystr
  definitions :: pystr
  queries_used :: "pystr list"
  metadata_filter :: "meta_filter option"

definition retrieve ::
  "('f::linorder) float_ops \<Rightarrow> 's retriever \<Rightarrow> pystr \<Rightarrow> 's world \<Rightarrow> (py_exception + retrieval) \<times> 's world" where
  "retrieve fl r question w =
     (case generate_multi_queries r question w of
        (Inl e, w1) \<Rightarrow> (Inl e, w1)
      | (Inr queries, w1) \<Rightarrow>
          (let meta_filter = build_metadata_filter question
           in case search_loop r meta_filter queries w1 of
                (all_results, w2) \<Rightarrow>
                  (case (if all_results \<noteq> []
                         then (case reciprocal_rank_fusion fl (dumps r) (loads r) all_results RRF_K of
                                 Inl e \<Rightarrow> Inl e
                               | Inr fused \<Rightarrow> Inr (take TOP_K fused))
                         else Inr []) of
                     Inl e \<Rightarrow> (Inl e, w2)
                   | Inr fused_docs \<Rightarrow>
                       (let parent_contexts = get_parent_context r fused_docs
                        in case get_definitions_context r question w2 of
                             (defs, w3) \<Rightarrow>
                               (Inr \<lparr>child_docs = fused_docs,
                                     child_context = py_join SEPARATOR (map format_child fused_docs),
                                     parent_context = py_join SEPARATOR (take 3 parent_contexts),
                                     definitions = defs,
                                     queries_used = queries,
                                     metadata_filter = meta_filter\<rparr>, w3)))))"

section \<open>rag\_chain.py: grounding check, generation and the query pipeline\<close>

record 's chain =
  llm :: "'s llm"
  retriever :: "'s retriever"

text \<open>
  The parsing in \<open>check_hallucination\<close>: \<open>text = result.strip().lower()\<close>, then the three
  containment tests in the order of the source.
\<close>

definition parse_grounding :: "pystr \<Rightarrow> pystr" where
  "parse_grounding result =
     (let text = py_lower (py_strip result)
      in if contains (ascii ''not_grounded'') text then ascii ''not_grounded''
         else if contains (ascii ''partial'') text then ascii ''partial''
         else if contains (ascii ''grounded'') text then ascii ''grounded''
         else ascii ''unknown'')"

definition check_hallucination :: "'s llm \<Rightarrow> pystr \<Rightarrow> pystr \<Rightarrow> 's world \<Rightarrow> pystr \<times> 's world" where
  "check_hallucination l answer context w =
     (let doc_text = take 6000 context
      in case invoke l (HallucinationPrompt doc_text answer) w of
           (Inr result, w') \<Rightarrow> (parse_grounding result, w')
         | (Inl e, w') \<Rightarrow> (ascii ''unknown'', w'))"

text \<open>\<open>x or default\<close> on strings.\<close>

definition or_default :: "pystr \<Rightarrow> pystr \<Rightarrow> pystr" where
  "or_default x dflt = (if x \<noteq> [] then x else dflt)"

text \<open>\<open>generate_answer\<close> has no handler: when the model raises, it raises.\<close>

definition generate_answer ::
  "'s llm \<Rightarrow> pystr \<Rightarrow> retrieval \<Rightarrow> 's world \<Rightarrow> (py_exception + pystr) \<times> 's world" where
  "generate_answer l question retrieval_result w =
     invoke l (RagPrompt question
                 (or_default (child_context retrieval_result) (ascii ''(no child context)''))
                 (or_default (parent_context retrieval_result) (ascii ''(no parent context)''))
                 (definitions retrieval_result)) w"

definition NOT_FOUND :: pystr where
  "NOT_FOUND = ascii (''I could not find relevant information in the SEBI '' @
     ''regulatory documents for your question. Please try '' @
     ''rephrasing or ask about a specific regulation.'')"

text \<open>
  The caveat: two newlines, the warning sign (U+26A0, U+FE0F), and the note.
\<close>

definition CAVEAT :: pystr where
  "CAVEAT = [10, 10, 9888, 65039] @ ascii ('' *Note: Parts of this answer may not be directly '' @
     ''supported by the source documents. Please verify against '' @
     ''the original SEBI circulars.*'')"

text \<open>The dictionary lookup \<open>{...}.get(hall, "medium")\<close>.\<close>

definition confidence_of :: "pystr \<Rightarrow> pystr" where
  "confidence_of hall =
     (case map_of [(ascii ''grounded'', ascii ''high''),
                   (ascii ''partial'', ascii ''medium''),
                   (ascii ''unknown'', ascii ''medium''),
                   (ascii ''not_grounded'', ascii ''low'')] hall of
        Some c \<Rightarrow> c
      | None \<Rightarrow> ascii ''medium'')"

record source_entry =
  src_file :: meta_value
  src_section :: meta_value
  src_date :: meta_value
  src_audience :: meta_value
  src_status :: meta_value
  src_pages :: meta_value

text \<open>The sources loop: one entry per distinct \<open>source\<close>, the first document's.\<close>

fun sources_loop :: "document list \<Rightarrow> meta_value list \<Rightarrow> source_entry list" where
  "sources_loop [] seen_src = []"
| "sources_loop (doc # docs) seen_src =
     (let src = meta_get doc ''source'' (MStr (ascii ''Unknown''))
      in if src \<notin> set seen_src
         then \<lparr>src_file = src,
               src_section = meta_get doc ''section'' (MStr []),
               src_date = meta_get doc ''date'' (MStr []),
               src_audience = meta_get doc ''audience'' (MStr []),
               src_status = meta_get doc ''status'' (MStr []),
               src_pages = meta_get doc ''pages'' (MStr [])\<rparr> # sources_loop docs (src # seen_src)
         else sources_loop docs seen_src)"

record query_result =
  answer :: pystr
  sources :: "source_entry list"
  confidence :: pystr
  hallucination_check :: pystr
  result_queries_used :: "pystr list"
  num_relevant :: nat
  num_retrieved :: nat

text \<open>
  Steps 2 and 3 of \<open>query\<close>. \<open>grade_relevance\<close> returns its argument itself when the loop
  kept nothing, so \<open>relevant_docs\<close> is then the very list \<open>child_docs\<close>, and what the
  retry appends to the one is appended to the other. The step returns
  \<open>relevant_docs\<close>, \<open>child_docs\<close> and the retrieval with its merged contexts.
\<close>

definition grade_and_retry ::
  "('f::linorder) float_ops \<Rightarrow> 's chain \<Rightarrow> pystr \<Rightarrow> retrieval \<Rightarrow> 's world \<Rightarrow>
   (py_exception + document list \<times> document list \<times> retrieval) \<times> 's world" where
  "grade_and_retry fl ch question retr w =
     (case grade_loop (llm ch) question (child_docs retr) w of
        (relevant, w1) \<Rightarrow>
          (let relevant_docs = (if relevant \<noteq> [] then relevant else child_docs retr)
           in if length relevant_docs < 2 \<and> metadata_filter retr \<noteq> None
              then (case retrieve fl (retriever ch) question w1 of
                      (Inl e, w2) \<Rightarrow> (Inl e, w2)
                    | (Inr retry, w2) \<Rightarrow>
                        (case grade_relevance (llm ch) (child_docs retry) question w2 of
                           (extra, w3) \<Rightarrow>
                             (let seen_ids = map (\<lambda>d. map_of (metadata d) (ascii ''child_id'')) relevant_docs;
                                  merged = relevant_docs @
                                    filter (\<lambda>doc. map_of (metadata doc) (ascii ''child_id'') \<notin> set seen_ids) extra;
                                  children = (if relevant \<noteq> [] then child_docs retr else merged)
                              in (Inr (merged, children,
                                    retr\<lparr>child_docs := children,
                                         child_context := child_context retr @ SEPARATOR @ child_context retry,
                                         parent_context := parent_context retr @ SEPARATOR @ parent_context retry\<rparr>),
                                  w3))))
              else (Inr (relevant_docs, child_docs retr, retr), w1)))"

text \<open>
  The end of \<open>query\<close> from the verdict on: the confidence, the caveat, the sources and
  the result dictionary.
\<close>

definition finish ::
  "pystr \<Rightarrow> pystr \<Rightarrow> document list \<Rightarrow> document list \<Rightarrow> retrieval \<Rightarrow> query_result" where
  "finish hall generated relevant_docs children retr =
     \<lparr>answer = (if hall = ascii ''not_grounded'' then generated @ CAVEAT else generated),
      sources = sources_loop relevant_docs [],
      confidence = confidence_of hall,
      hallucination_check = hall,
      result_queries_used = queries_used retr,
      num_relevant = length relevant_docs,
      num_retrieved = length children\<rparr>"

definition query ::
  "('f::linorder) float_ops \<Rightarrow> 's chain \<Rightarrow> pystr \<Rightarrow> 's world \<Rightarrow> (py_exception + query_result) \<times> 's world" where
  "query fl ch question w =
     (case retrieve fl (retriever ch) question w of
        (Inl e, w1) \<Rightarrow> (Inl e, w1)
      | (Inr retr, w1) \<Rightarrow>
          (if child_docs retr = []
           then (Inr \<lparr>answer = NOT_FOUND,
                      sources = [],
                      confidence = ascii ''no_results'',
                      hallucination_check = ascii ''n/a'',
                      result_queries_used = queries_used retr,
                      num_relevant = 0,
                      num_retrieved = 0\<rparr>, w1)
           else (case grade_and_retry fl ch question retr w1 of
                   (Inl e, w2) \<Rightarrow> (Inl e, w2)
                 | (Inr (relevant_docs, children, merged), w2) \<Rightarrow>
                     (case generate_answer (llm ch) question merged w2 of
                        (Inl e, w3) \<Rightarrow> (Inl e, w3)
                      | (Inr generated, w3) \<Rightarrow>
                          (let full_context = child_context merged @ [10, 10] @ parent_context merged
                           in case check_hallucination (llm ch) generated full_context w3 of
                                (hall, w4) \<Rightarrow>
                                  (Inr (finish hall generated relevant_docs children merged), w4))))))"

section \<open>ingest.py: temporal versioning\<close>

text \<open>
  The dictionary \<open>doc_info\<close> of one document (a circular), as \<open>process_all_pdfs\<close> builds
  it, with the keys the versioning and the chunking read or write. The keys that are
  read with \<open>.get(key, default)\<close> or written later may be absent. The dictionaries are
  mutable objects: the list \<open>all_circulars\<close> holds references (numbers), and the heap
  maps a reference to the dictionary it points to. \<open>date_parsed\<close> is the ISO form of
  the date in the file name, or the empty string; Python compares these strings code
  point by code point, which is the order of lists used here, and for ISO dates this
  is the order of the dates, with the empty string before all of them.
\<close>

record doc_info =
  filename :: pystr
  title :: pystr
  full_text :: pystr
  date :: "pystr option"
  audience :: "pystr option"
  subject :: "pystr option"
  references :: "pystr list option"
  subject_normalized :: "pystr option"
  date_parsed :: "pystr option"
  is_latest :: "bool option"
  status :: "pystr option"
  version_count :: "nat option"
  all_versions :: "pystr list option"

type_synonym heap = "nat \<Rightarrow> doc_info"

text \<open>\<open>c.get("subject_normalized", "")\<close> and \<open>x.get("date_parsed", "")\<close>.\<close>

definition subject_key :: "doc_info \<Rightarrow> pystr" where
  "subject_key c = (case subject_normalized c of None \<Rightarrow> [] | Some s \<Rightarrow> s)"

definition date_key :: "doc_info \<Rightarrow> pystr" where
  "date_key c = (case date_parsed c of None \<Rightarrow> [] | Some d \<Rightarrow> d)"

text \<open>
  \<open>subject_groups[key].append(c)\<close> on a \<open>defaultdict(list)\<close>, which keeps its keys in the
  order of their first insertion.
\<close>

definition group_append :: "(pystr \<times> nat list) list \<Rightarrow> pystr \<Rightarrow> nat \<Rightarrow> (pystr \<times> nat list) list" where
  "group_append groups key c =
     (if key \<notin> set (map fst groups) then groups @ [(key, [c])]
      else map (\<lambda>(k, g). if k = key then (k, g @ [c]) else (k, g)) groups)"

text \<open>The first loop: \<open>subject_groups\<close>.\<close>

definition group_circulars :: "heap \<Rightarrow> nat list \<Rightarrow> (pystr \<times> nat list) list" where
  "group_circulars h all_circulars =
     foldl (\<lambda>groups c. group_append groups (subject_key (h c)) c) [] all_circulars"

definition ACTIVE :: pystr where "ACTIVE = ascii ''ACTIVE''"
definition SUPERSEDED :: pystr where "SUPERSEDED = ascii ''SUPERSEDED''"

text \<open>The assignments to the circular at position \<open>i\<close> of the sorted group.\<close>

definition mark :: "nat list \<Rightarrow> nat \<Rightarrow> heap \<Rightarrow> doc_info \<Rightarrow> doc_info" where
  "mark grp i h c =
     (let c1 = c\<lparr>is_latest := Some (i = 0),
                 status := Some (if i = 0 then ACTIVE else SUPERSEDED)\<rparr>
      in if length grp > 1
         then c1\<lparr>version_count := Some (length grp),
                 all_versions := Some (map (\<lambda>g. filename (h g)) grp)\<rparr>
         else c1)"

text \<open>\<open>for i, c in enumerate(group)\<close>, from position \<open>i\<close> on.\<close>

fun mark_versions :: "nat list \<Rightarrow> nat \<Rightarrow> nat list \<Rightarrow> heap \<Rightarrow> heap" where
  "mark_versions grp i [] h = h"
| "mark_versions grp i (c # cs) h = mark_versions grp (Suc i) cs (h(c := mark grp i h (h c)))"

text \<open>
  The body of the second loop for one group:
  \<open>group.sort(key=lambda x: x.get("date_parsed", ""), reverse=True)\<close>, then the marking.
\<close>

definition process_group :: "heap \<Rightarrow> nat list \<Rightarrow> heap" where
  "process_group h grp =
     (let sorted_grp = py_sorted_reverse (\<lambda>c. date_key (h c)) grp
      in mark_versions sorted_grp 0 sorted_grp h)"

text \<open>\<open>for group in subject_groups.values()\<close>; the function returns its argument list.\<close>

definition determine_latest_versions :: "heap \<Rightarrow> nat list \<Rightarrow> heap" where
  "determine_latest_versions h all_circulars =
     foldl process_group h (map snd (group_circulars h all_circulars))"

section \<open>chunker.py\<close>

text \<open>
  What the chunker takes from outside the repository. \<open>split_text size overlap seps t\<close>
  is \<open>RecursiveCharacterTextSplitter(chunk_size=size, chunk_overlap=overlap,
  separators=seps).split_text(t)\<close>; \<open>uuid4\<close> is \<open>str(uuid.uuid4())\<close>, drawn from an external
  state; \<open>re_search pat t\<close> is \<open>m.group(0)\<close> for \<open>m = re.search(pat, t)\<close>, or \<open>None\<close>;
  \<open>page_numbers t\<close> is \<open>[int(n) for n in re.findall(r"\[Page (\d+)\]", t)]\<close>; \<open>json_dumps\<close>
  is \<open>json.dumps\<close> on a list of strings.
\<close>

text \<open>
  The six header patterns of \<open>detect_section_header\<close>, in the order of the source:
  chapter, part, section, clause, annexure or appendix, schedule.
\<close>

datatype header_pattern =
  Chapter_pattern | Part_pattern | Section_pattern | Clause_pattern | Annexure_pattern | Schedule_pattern

record 's chunk_env =
  split_text :: "nat \<Rightarrow> nat \<Rightarrow> pystr list \<Rightarrow> pystr \<Rightarrow> pystr list"
  uuid4 :: "'s \<Rightarrow> pystr \<times> 's"
  re_search :: "header_pattern \<Rightarrow> pystr \<Rightarrow> pystr option"
  page_numbers :: "pystr \<Rightarrow> nat list"
  json_dumps :: "pystr list \<Rightarrow> pystr"

text \<open>A chunk: \<open>{"id": ..., "text": ..., "metadata": {...}}\<close>.\<close>

record chunk =
  chunk_id :: pystr
  chunk_text :: pystr
  chunk_metadata :: "(pystr \<times> meta_value) list"

text \<open>
  \<open>detect_section_header\<close>: the patterns are tried in order on the first 600 characters;
  the first match, trimmed and cut to 120 characters, is the header.
\<close>

fun first_match :: "(header_pattern \<Rightarrow> pystr \<Rightarrow> pystr option) \<Rightarrow> header_pattern list \<Rightarrow> pystr \<Rightarrow> pystr" where
  "first_match search [] t = []"
| "first_match search (pat # pats) t =
     (case search pat (take 600 t) of
        Some m \<Rightarrow> take 120 (py_strip m)
      | None \<Rightarrow> first_match search pats t)"

definition detect_section_header :: "'s chunk_env \<Rightarrow> pystr \<Rightarrow> pystr" where
  "detect_section_header env t =
     first_match (re_search env)
       [Chapter_pattern, Part_pattern, Section_pattern, Clause_pattern, Annexure_pattern,
        Schedule_pattern] t"

text \<open>\<open>str(n)\<close> for a natural number.\<close>

fun str_nat :: "nat \<Rightarrow> pystr" where
  "str_nat n = (if n < 10 then [48 + n] else str_nat (n div 10) @ [48 + n mod 10])"

text \<open>The page range of a parent: empty, one page, or \<open>first-last\<close> of the sorted set.\<close>

definition page_range_of :: "nat list \<Rightarrow> pystr" where
  "page_range_of page_nums =
     (if page_nums \<noteq> []
      then (let nums = sort (remdups page_nums)
            in if length nums > 1 then str_nat (hd nums) @ ascii ''-'' @ str_nat (last nums)
               else str_nat (hd nums))
      else [])"

text \<open>\<open>meta_base\<close>, with the defaults of the \<open>.get\<close> calls.\<close>

definition meta_base :: "'s chunk_env \<Rightarrow> doc_info \<Rightarrow> (pystr \<times> meta_value) list" where
  "meta_base env d =
     [(ascii ''source'', MStr (filename d)),
      (ascii ''title'', MStr (title d)),
      (ascii ''date'', MStr (case date d of Some x \<Rightarrow> x | None \<Rightarrow> [])),
      (ascii ''audience'', MStr (case audience d of Some x \<Rightarrow> x | None \<Rightarrow> ascii ''General'')),
      (ascii ''subject'', MStr (case subject d of Some x \<Rightarrow> x | None \<Rightarrow> [])),
      (ascii ''is_latest'', MBool (case is_latest d of Some b \<Rightarrow> b | None \<Rightarrow> True)),
      (ascii ''status'', MStr (case status d of Some x \<Rightarrow> x | None \<Rightarrow> ascii ''ACTIVE'')),
      (ascii ''references'', MStr (json_dumps env (case references d of Some rs \<Rightarrow> rs | None \<Rightarrow> [])))]"

text \<open>The two splitters.\<close>

definition parent_split :: "'s chunk_env \<Rightarrow> pystr \<Rightarrow> pystr list" where
  "parent_split env t =
     split_text env (PARENT_CHUNK_SIZE * CHARS_PER_TOKEN) (PARENT_CHUNK_OVERLAP * CHARS_PER_TOKEN)
       [[10, 10] @ ascii ''[Page '', [10, 10], [10], ascii ''. '', ascii '' ''] t"

definition child_split :: "'s chunk_env \<Rightarrow> pystr \<Rightarrow> pystr list" where
  "child_split env t =
     split_text env (CHILD_CHUNK_SIZE * CHARS_PER_TOKEN) (CHILD_CHUNK_OVERLAP * CHARS_PER_TOKEN)
       [[10, 10], [10], ascii ''. '', ascii '' ''] t"

text \<open>\<open>for child_text in child_texts\<close>: the children of one parent.\<close>

fun children_loop ::
  "'s chunk_env \<Rightarrow> (pystr \<times> meta_value) list \<Rightarrow> pystr \<Rightarrow> pystr \<Rightarrow> pystr \<Rightarrow> pystr list \<Rightarrow> 's \<Rightarrow>
   chunk list \<times> 's" where
  "children_loop env base parent_id section page_range [] s = ([], s)"
| "children_loop env base parent_id section page_range (child_text # child_texts) s =
     (case uuid4 env s of
        (child_id, s1) \<Rightarrow>
          (let has_table = (contains (ascii ''|'') child_text \<and> contains (ascii ''---'') child_text);
               child = \<lparr>chunk_id = child_id, chunk_text = child_text,
                        chunk_metadata = base @
                          [(ascii ''child_id'', MStr child_id),
                           (ascii ''parent_id'', MStr parent_id),
                           (ascii ''section'', MStr section),
                           (ascii ''pages'', MStr page_range),
                           (ascii ''chunk_type'', MStr (ascii ''child'')),
                           (ascii ''has_table'', MBool has_table)]\<rparr>
           in case children_loop env base parent_id section page_range child_texts s1 of
                (rest, s2) \<Rightarrow> (child # rest, s2)))"

text \<open>\<open>for parent_text in parent_texts\<close>: the lists \<open>parents\<close> and \<open>children\<close>.\<close>

fun parents_loop ::
  "'s chunk_env \<Rightarrow> (pystr \<times> meta_value) list \<Rightarrow> pystr list \<Rightarrow> 's \<Rightarrow> (chunk list \<times> chunk list) \<times> 's" where
  "parents_loop env base [] s = (([], []), s)"
| "parents_loop env base (parent_text # parent_texts) s =
     (case uuid4 env s of
        (parent_id, s1) \<Rightarrow>
          (let section = detect_section_header env parent_text;
               page_range = page_range_of (page_numbers env parent_text);
               parent = \<lparr>chunk_id = parent_id, chunk_text = parent_text,
                         chunk_metadata = base @
                           [(ascii ''parent_id'', MStr parent_id),
                            (ascii ''section'', MStr section),
                            (ascii ''pages'', MStr page_range),
                            (ascii ''chunk_type'', MStr (ascii ''parent''))]\<rparr>
           in case children_loop env base parent_id section page_range (child_split env parent_text) s1 of
                (kids, s2) \<Rightarrow>
                  (case parents_loop env base parent_texts s2 of
                     ((parents, children), s3) \<Rightarrow> ((parent # parents, kids @ children), s3))))"

definition create_parent_child_chunks ::
  "'s chunk_env \<Rightarrow> doc_info \<Rightarrow> 's \<Rightarrow> (chunk list \<times> chunk list) \<times> 's" where
  "create_parent_child_chunks env d s =
     (if py_strip (full_text d) = [] then (([], []), s)
      else parents_loop env (meta_base env d) (parent_split env (full_text d)) s)"

section \<open>Stubs for concrete runs\<close>

text \<open>A language model that is down: every call raises.\<close>

definition failing_llm :: "unit llm" where
  "failing_llm p s = (Inl (ExternalError (ascii ''unavailable'')), s)"

text \<open>A language model that answers every prompt with the same text.\<close>

definition constant_llm :: "pystr \<Rightarrow> unit llm" where
  "constant_llm reply p s = (Inr reply, s)"

definition world0 :: "unit world" where
  "world0 = \<lparr>ext = (), llm_log = []\<rparr>"

definition doc_a :: document where
  "doc_a = \<lparr>page_content = ascii ''Mutual funds shall disclose'',
            metadata = [(ascii ''child_id'', MStr (ascii ''c1''))]\<rparr>"

definition doc_b :: document where
  "doc_b = \<lparr>page_content = ascii ''Stock brokers shall maintain'',
            metadata = [(ascii ''child_id'', MStr (ascii ''c2''))]\<rparr>"

definition doc_c :: document where
  "doc_c = \<lparr>page_content = ascii ''Depositories shall reconcile'',
            metadata = [(ascii ''child_id'', MStr (ascii ''c3''))]\<rparr>"

definition doc_d :: document where
  "doc_d = \<lparr>page_content = ascii ''Portfolio managers shall report'',
            metadata = [(ascii ''child_id'', MStr (ascii ''c4''))]\<rparr>"

definition doc_e :: document where
  "doc_e = \<lparr>page_content = ascii ''Research analysts shall register'',
            metadata = [(ascii ''child_id'', MStr (ascii ''c5''))]\<rparr>"

text \<open>
  A serialiser for the stub documents: a document is identified by its text, and
  \<open>stub_loads\<close> gives back the stub document with that text.
\<close>

definition stub_dumps :: "document \<Rightarrow> pystr" where
  "stub_dumps d = page_content d"

definition stub_loads :: "pystr \<Rightarrow> document" where
  "stub_loads s =
     (case find (\<lambda>d. page_content d = s) [doc_a, doc_b, doc_c, doc_d, doc_e] of
        Some d \<Rightarrow> d
      | None \<Rightarrow> \<lparr>page_content = s, metadata = []\<rparr>)"

text \<open>A retriever over a given language model and similarity search, with no glossary.\<close>

definition stub_retriever ::
  "unit llm \<Rightarrow> (pystr \<Rightarrow> nat \<Rightarrow> meta_filter option \<Rightarrow> (unit, document list) ext_call) \<Rightarrow> unit retriever" where
  "stub_retriever l search =
     \<lparr>r_llm = l, vectorstore = search, definitions_store = None, parent_store = [],
      dumps = stub_dumps, loads = stub_loads\<rparr>"

text \<open>An answer of the model to the expansion prompt: five lines and a blank one.\<close>

definition five_lines :: pystr where
  "five_lines = ascii '' What does SEBI require?'' @ [10, 10] @ ascii ''Disclosure norms '' @ [10] @
      ascii ''a'' @ [10] @ ascii ''b'' @ [10] @ ascii ''c'' @ [10]"

text \<open>A similarity search that finds nothing, whatever the query and the filter.\<close>

definition empty_search :: "pystr \<Rightarrow> nat \<Rightarrow> meta_filter option \<Rightarrow> (unit, document list) ext_call" where
  "empty_search q k f s = (Inr [], s)"

text \<open>A similarity search with one hit under any filter and five hits without a filter.\<close>

definition one_or_five :: "pystr \<Rightarrow> nat \<Rightarrow> meta_filter option \<Rightarrow> (unit, document list) ext_call" where
  "one_or_five q k f s =
     (case f of Some _ \<Rightarrow> (Inr [doc_a], s) | None \<Rightarrow> (Inr [doc_a, doc_b, doc_c, doc_d, doc_e], s))"

text \<open>A similarity search that always finds the same two documents.\<close>

definition two_found :: "pystr \<Rightarrow> nat \<Rightarrow> meta_filter option \<Rightarrow> (unit, document list) ext_call" where
  "two_found q k f s = (Inr [doc_a, doc_b], s)"

text \<open>
  A language model that answers by the kind of prompt: no expansion (the call raises),
  every document relevant, a fixed answer, and a given verdict on its grounding.
\<close>

definition scripted_llm :: "pystr \<Rightarrow> unit llm" where
  "scripted_llm verdict p s =
     (case p of
        MultiQueryPrompt q n \<Rightarrow> (Inl (ExternalError (ascii ''unavailable'')), s)
      | RelevancePrompt d q \<Rightarrow> (Inr (ascii ''relevant''), s)
      | RagPrompt q c pc d \<Rightarrow> (Inr (ascii ''Mutual funds shall disclose.''), s)
      | HallucinationPrompt d a \<Rightarrow> (Inr verdict, s))"

definition stub_chain ::
  "unit llm \<Rightarrow> (pystr \<Rightarrow> nat \<Rightarrow> meta_filter option \<Rightarrow> (unit, document list) ext_call) \<Rightarrow> unit chain" where
  "stub_chain l search = \<lparr>llm = l, retriever = stub_retriever l search\<rparr>"

text \<open>A question that names an audience and asks for the latest rules.\<close>

definition fund_question :: pystr where
  "fund_question = ascii ''latest mutual fund norms''"

definition fund_filter :: meta_filter where
  "fund_filter = Where_and [Audience (ascii ''Mutual Funds''), Is_latest True]"

text \<open>The world after the expansion prompt for a question has been sent.\<close>

definition asked :: "pystr \<Rightarrow> unit world" where
  "asked question = \<lparr>ext = (), llm_log = [MultiQueryPrompt question MULTI_QUERY_COUNT]\<rparr>"

text \<open>
  Three circulars on a heap: two on mutual funds, dated 2022 and 2024, and one on stock
  brokers.
\<close>

definition new_circular :: "string \<Rightarrow> string \<Rightarrow> string \<Rightarrow> doc_info" where
  "new_circular name topic day =
     \<lparr>filename = ascii name, title = ascii topic, full_text = [],
      date = None, audience = None, subject = Some (ascii topic), references = None,
      subject_normalized = Some (ascii topic), date_parsed = Some (ascii day),
      is_latest = None, status = None, version_count = None, all_versions = None\<rparr>"

definition three_circulars :: heap where
  "three_circulars =
     (\<lambda>_. new_circular [] [] [])
       (0 := new_circular ''Jan_01_2022_Master Circular for Mutual Funds.pdf'' ''mutual funds'' ''2022-01-01T00:00:00'',
        1 := new_circular ''Jun_27_2024_Master Circular for Mutual Funds.pdf'' ''mutual funds'' ''2024-06-27T00:00:00'',
        2 := new_circular ''May_17_2023_Master Circular for Stock Brokers.pdf'' ''stock brokers'' ''2023-05-17T00:00:00'')"

text \<open>
  A text splitter that cuts a text longer than eight characters into two overlapping
  halves, whatever the configured sizes and separators.
\<close>

definition halves_split :: "nat \<Rightarrow> nat \<Rightarrow> pystr list \<Rightarrow> pystr \<Rightarrow> pystr list" where
  "halves_split chunk_size overlap seps t =
     (if length t \<le> 8 then [t] else [take (length t div 2 + 1) t, drop (length t div 2 - 1) t])"

text \<open>Identifiers \<open>id-0\<close>, \<open>id-1\<close>, ... from a counter.\<close>

definition counter_uuid :: "nat \<Rightarrow> pystr \<times> nat" where
  "counter_uuid n = (ascii ''id-'' @ str_nat n, Suc n)"

definition stub_chunk_env :: "nat chunk_env" where
  "stub_chunk_env =
     \<lparr>split_text = halves_split, uuid4 = counter_uuid, re_search = (\<lambda>pat t. None),
      page_numbers = (\<lambda>t. [1]), json_dumps = (\<lambda>rs. ascii ''[]'')\<rparr>"

text \<open>A document of fifteen characters, and one of blanks only.\<close>

definition short_doc :: doc_info where
  "short_doc = (new_circular ''a.pdf'' ''mutual funds'' ''2024-06-27T00:00:00'')
     \<lparr>full_text := ascii ''Funds disclose.''\<rparr>"

definition blank_doc :: doc_info where
  "blank_doc = (new_circular ''b.pdf'' ''mutual funds'' ''2024-06-27T00:00:00'')
     \<lparr>full_text := [32, 10, 9, 32]\<rparr>"

text \<open>
  Four result lists in which the chunks \<open>a\<close> and \<open>b\<close> have the ranks 1, 1, 2, 3 and
  2, 3, 1, 1: the same four quotients, met in a different order.
\<close>

definition tied_lists :: "document list list" where
  "tied_lists =
     [[doc_c, doc_a, doc_b], [doc_c, doc_a, doc_d, doc_b],
      [doc_c, doc_b, doc_a], [doc_c, doc_b, doc_d, doc_a]]"

section \<open>Properties of the grading loop\<close>

lemmas str_eval = ascii_def py_strip_def py_lower_def is_space_def lower_char_def contains_def
  sublist_code prefix_code Let_def

lemma grading_outcomes_length:
  "length (grading_outcomes l question docs w) = length docs"
  by (induction docs arbitrary: w) (auto split: prod.splits)

lemma grade_loop_graded:
  "fst (grade_loop l question docs w) = graded_relevant docs (grading_outcomes l question docs w)"
proof (induction docs arbitrary: w)
  case Nil
  show ?case by (simp add: graded_relevant_def)
next
  case (Cons d ds)
  obtain r w1 where call: "invoke l (RelevancePrompt (take 800 (page_content d)) question) w = (r, w1)"
    by (cases "invoke l (RelevancePrompt (take 800 (page_content d)) question) w")
  obtain rel w2 where rest: "grade_loop l question ds w1 = (rel, w2)"
    by (cases "grade_loop l question ds w1")
  from Cons.IH [of w1] rest
  have "rel = graded_relevant ds (grading_outcomes l question ds w1)" by simp
  with call rest show ?case by (simp add: graded_relevant_def)
qed

lemma graded_relevant_all_kept:
  "length outcomes = length docs \<Longrightarrow> \<forall>r \<in> set outcomes. keeps r \<Longrightarrow>
   graded_relevant docs outcomes = docs"
proof (induction docs arbitrary: outcomes)
  case Nil
  then show ?case by (simp add: graded_relevant_def)
next
  case (Cons d ds)
  then obtain r rs where "outcomes = r # rs" by (cases outcomes) auto
  with Cons show ?case by (simp add: graded_relevant_def)
qed

lemma graded_relevant_subseq: "subseq (graded_relevant docs outcomes) docs"
proof (induction docs arbitrary: outcomes)
  case Nil
  then show ?case by (simp add: graded_relevant_def)
next
  case (Cons d ds)
  show ?case
  proof (cases outcomes)
    case Nil
    then show ?thesis by (simp add: graded_relevant_def)
  next
    case (Cons r rs)
    with Cons.IH [of rs] show ?thesis by (auto simp: graded_relevant_def)
  qed
qed

text \<open>
  C1. For a non-empty list of retrieved documents, \<open>grade_relevance\<close> returns a
  non-empty list. A document whose grading call raised is in the list of relevant
  documents and in the returned list, whatever the other calls did; when the list of
  relevant documents is empty the input list is returned; and when every grading call
  raises, the input list comes back unchanged, in order.
\<close>

theorem grade_relevance_fail_open:
  fixes l :: "'s llm" and question docs w
  defines "outcomes \<equiv> grading_outcomes l question docs w"
  assumes "docs \<noteq> []"
  shows "fst (grade_relevance l docs question w) \<noteq> [] \<and>
    (\<forall>(d, r) \<in> set (zip docs outcomes).
        isl r \<longrightarrow> d \<in> set (graded_relevant docs outcomes) \<and>
          d \<in> set (fst (grade_relevance l docs question w))) \<and>
    (graded_relevant docs outcomes = [] \<longrightarrow>
        fst (grade_relevance l docs question w) = docs) \<and>
    ((\<forall>r \<in> set outcomes. isl r) \<longrightarrow>
        fst (grade_relevance l docs question w) = docs)"
proof -
  let ?out = "grading_outcomes l question docs w"
  have eq: "fst (grade_relevance l docs question w) =
      (if graded_relevant docs ?out = [] then docs else graded_relevant docs ?out)"
    using grade_loop_graded [of l question docs w]
    by (auto simp: grade_relevance_def split: prod.splits)
  have nonempty: "fst (grade_relevance l docs question w) \<noteq> []"
    using assms eq by auto
  have kept: "\<forall>(d, r) \<in> set (zip docs ?out). isl r \<longrightarrow> d \<in> set (graded_relevant docs ?out) \<and>
      d \<in> set (fst (grade_relevance l docs question w))"
  proof (intro ballI, clarify)
    fix d r assume mem: "(d, r) \<in> set (zip docs ?out)" and "isl r"
    then have "keeps r" by (cases r) auto
    with mem have "(d, r) \<in> set (filter (\<lambda>(d, r). keeps r) (zip docs ?out))" by simp
    then have in_kept: "d \<in> set (graded_relevant docs ?out)"
      unfolding graded_relevant_def by force
    then have "graded_relevant docs ?out \<noteq> []" by auto
    with eq in_kept show "d \<in> set (graded_relevant docs ?out) \<and>
      d \<in> set (fst (grade_relevance l docs question w))" by simp
  qed
  have all_fail: "(\<forall>r \<in> set ?out. isl r) \<longrightarrow> fst (grade_relevance l docs question w) = docs"
  proof
    assume all: "\<forall>r \<in> set ?out. isl r"
    have "\<forall>r \<in> set ?out. keeps r"
    proof
      fix r assume "r \<in> set ?out"
      with all have "isl r" by blast
      then show "keeps r" by (cases r) auto
    qed
    then have "graded_relevant docs ?out = docs"
      by (rule graded_relevant_all_kept [OF grading_outcomes_length])
    with eq show "fst (grade_relevance l docs question w) = docs" by simp
  qed
  from nonempty kept eq all_fail show ?thesis
    unfolding outcomes_def by simp
qed

lemma failing_llm_outcomes:
  "grading_outcomes failing_llm question docs w =
     map (\<lambda>d. Inl (ExternalError (ascii ''unavailable''))) docs"
  by (induction docs arbitrary: w) (simp_all add: invoke_def failing_llm_def)

theorem grade_relevance_fail_open_witness:
  "[doc_a, doc_b] \<noteq> [] \<and>
   grading_outcomes failing_llm (ascii ''What must a mutual fund disclose?'') [doc_a, doc_b] world0 =
     [Inl (ExternalError (ascii ''unavailable'')), Inl (ExternalError (ascii ''unavailable''))] \<and>
   fst (grade_relevance failing_llm [doc_a, doc_b] (ascii ''What must a mutual fund disclose?'') world0) =
     [doc_a, doc_b]"
proof -
  let ?q = "ascii ''What must a mutual fund disclose?''"
  have out: "grading_outcomes failing_llm ?q [doc_a, doc_b] world0 =
      [Inl (ExternalError (ascii ''unavailable'')), Inl (ExternalError (ascii ''unavailable''))]"
    unfolding failing_llm_outcomes by simp
  have ne: "[doc_a, doc_b] \<noteq> []" by simp
  from grade_relevance_fail_open [OF ne, where l = failing_llm and question = ?q and w = world0]
  have "(\<forall>r \<in> set (grading_outcomes failing_llm ?q [doc_a, doc_b] world0). isl r) \<longrightarrow>
      fst (grade_relevance failing_llm [doc_a, doc_b] ?q world0) = [doc_a, doc_b]"
    by blast
  then have "fst (grade_relevance failing_llm [doc_a, doc_b] ?q world0) = [doc_a, doc_b]"
    unfolding out by simp
  with out ne show ?thesis by blast
qed

text \<open>
  C9. The list \<open>grade_relevance\<close> returns is a sublist of its input in the input's
  order: it is the subsequence of the documents the loop kept (graded relevant, or kept
  because the call raised) when that subsequence is not empty, and the input list
  itself when it is.
\<close>

theorem grade_relevance_subseq:
  fixes l :: "'s llm" and question docs w
  defines "kept \<equiv> graded_relevant docs (grading_outcomes l question docs w)"
  shows "subseq (fst (grade_relevance l docs question w)) docs \<and>
    subseq (kept) docs \<and>
    (kept \<noteq> [] \<longrightarrow> fst (grade_relevance l docs question w) = kept) \<and>
    (kept = [] \<longrightarrow> fst (grade_relevance l docs question w) = docs)"
proof -
  let ?kept = "graded_relevant docs (grading_outcomes l question docs w)"
  have eq: "fst (grade_relevance l docs question w) = (if ?kept = [] then docs else ?kept)"
    using grade_loop_graded [of l question docs w]
    by (auto simp: grade_relevance_def split: prod.splits)
  have sub: "subseq ?kept docs" by (rule graded_relevant_subseq)
  have "subseq (fst (grade_relevance l docs question w)) docs"
    using eq sub by (cases "?kept = []") simp_all
  with eq sub show ?thesis unfolding kept_def by simp
qed

lemma says_relevant_examples:
  "says_relevant (ascii ''relevant'')"
  "\<not> says_relevant (ascii ''not_relevant'')"
  "says_relevant (ascii '' Relevant. '')"
  by (simp_all add: says_relevant_def str_eval)

lemma constant_llm_outcomes:
  "grading_outcomes (constant_llm reply) question docs w = map (\<lambda>d. Inr reply) docs"
  by (induction docs arbitrary: w) (simp_all add: invoke_def constant_llm_def)

theorem grade_relevance_subseq_witness:
  "graded_relevant [doc_a, doc_b]
     (grading_outcomes (constant_llm (ascii ''not_relevant'')) (ascii ''fees'') [doc_a, doc_b] world0) = [] \<and>
   fst (grade_relevance (constant_llm (ascii ''not_relevant'')) [doc_a, doc_b] (ascii ''fees'') world0) =
     [doc_a, doc_b] \<and>
   graded_relevant [doc_a, doc_b]
     (grading_outcomes (constant_llm (ascii ''relevant'')) (ascii ''fees'') [doc_a, doc_b] world0) =
     [doc_a, doc_b] \<and>
   subseq (fst (grade_relevance (constant_llm (ascii ''relevant'')) [doc_a, doc_b] (ascii ''fees'') world0))
     [doc_a, doc_b]"
proof -
  let ?q = "ascii ''fees''"
  have none: "graded_relevant [doc_a, doc_b]
      (grading_outcomes (constant_llm (ascii ''not_relevant'')) ?q [doc_a, doc_b] world0) = []"
    unfolding constant_llm_outcomes by (simp add: graded_relevant_def says_relevant_examples)
  have both: "graded_relevant [doc_a, doc_b]
      (grading_outcomes (constant_llm (ascii ''relevant'')) ?q [doc_a, doc_b] world0) = [doc_a, doc_b]"
    unfolding constant_llm_outcomes by (simp add: graded_relevant_def says_relevant_examples)
  from grade_relevance_subseq
    [where l = "constant_llm (ascii ''not_relevant'')" and question = ?q and docs = "[doc_a, doc_b]" and w = world0]
  have a: "fst (grade_relevance (constant_llm (ascii ''not_relevant'')) [doc_a, doc_b] ?q world0) = [doc_a, doc_b]"
    using none by blast
  from grade_relevance_subseq
    [where l = "constant_llm (ascii ''relevant'')" and question = ?q and docs = "[doc_a, doc_b]" and w = world0]
  have b: "subseq (fst (grade_relevance (constant_llm (ascii ''relevant'')) [doc_a, doc_b] ?q world0)) [doc_a, doc_b]"
    by blast
  from none a both b show ?thesis by blast
qed

section \<open>Properties of the query expansion\<close>

lemma dropWhile_unchanged: "xs = [] \<or> \<not> P (hd xs) \<Longrightarrow> dropWhile P xs = xs"
  by (cases xs) auto

lemma rev_dropWhile_rev_hd:
  "rev (dropWhile P (rev xs)) \<noteq> [] \<Longrightarrow> hd (rev (dropWhile P (rev xs))) = hd xs"
proof -
  assume ne: "rev (dropWhile P (rev xs)) \<noteq> []"
  have "rev xs = takeWhile P (rev xs) @ dropWhile P (rev xs)" by simp
  then have "xs = rev (dropWhile P (rev xs)) @ rev (takeWhile P (rev xs))"
    by (metis rev_append rev_rev_ident)
  with ne show ?thesis by (metis hd_append2)
qed

lemma py_strip_ends:
  "py_strip s = [] \<or> (\<not> is_space (hd (py_strip s)) \<and> \<not> is_space (last (py_strip s)))"
proof (cases "py_strip s = []")
  case True
  then show ?thesis by simp
next
  case False
  let ?t = "dropWhile is_space s"
  from False have ne: "rev (dropWhile is_space (rev ?t)) \<noteq> []" by (simp add: py_strip_def)
  have tne: "?t \<noteq> []"
  proof
    assume e: "?t = []"
    show False using ne unfolding e by simp
  qed
  have "hd (py_strip s) = hd ?t"
    unfolding py_strip_def using ne by (rule rev_dropWhile_rev_hd)
  moreover have "\<not> is_space (hd ?t)" using tne by (rule hd_dropWhile)
  moreover have "last (py_strip s) = hd (dropWhile is_space (rev ?t))"
    unfolding py_strip_def by (rule last_rev)
  moreover have "\<not> is_space (hd (dropWhile is_space (rev ?t)))"
  proof (rule hd_dropWhile)
    show "dropWhile is_space (rev ?t) \<noteq> []" using ne unfolding rev_is_Nil_conv .
  qed
  ultimately show ?thesis by simp
qed

lemma py_strip_fixed:
  assumes "s = [] \<or> (\<not> is_space (hd s) \<and> \<not> is_space (last s))"
  shows "py_strip s = s"
proof (cases "s = []")
  case True
  then show ?thesis by (simp add: py_strip_def)
next
  case False
  with assms have h: "\<not> is_space (hd s)" and l: "\<not> is_space (last s)" by auto
  from False h have "dropWhile is_space s = s" by (intro dropWhile_unchanged) simp
  moreover from False l have "dropWhile is_space (rev s) = rev s"
    by (intro dropWhile_unchanged) (simp add: hd_rev)
  ultimately show ?thesis by (simp add: py_strip_def)
qed

lemma py_strip_idem: "py_strip (py_strip s) = py_strip s"
  by (rule py_strip_fixed) (rule py_strip_ends)

lemma split_nl_nonempty: "split_nl s \<noteq> []"
  by (induction s) (auto split: list.splits)

lemma split_nl_join: "py_join [10] (split_nl s) = s"
proof (induction s)
  case Nil
  show ?case by simp
next
  case (Cons c cs)
  obtain l ls where sp: "split_nl cs = l # ls"
    using split_nl_nonempty [of cs] by (cases "split_nl cs") auto
  with Cons show ?case by (cases ls) auto
qed

lemma split_nl_no_newline: "l \<in> set (split_nl s) \<Longrightarrow> 10 \<notin> set l"
proof (induction s arbitrary: l)
  case Nil
  then show ?case by simp
next
  case (Cons c cs)
  obtain l' ls where sp: "split_nl cs = l' # ls"
    using split_nl_nonempty [of cs] by (cases "split_nl cs") auto
  show ?case
  proof (cases "c = 10")
    case True
    with Cons show ?thesis by auto
  next
    case False
    with Cons.prems sp have "l = c # l' \<or> l \<in> set ls" by auto
    then show ?thesis
    proof
      assume "l = c # l'"
      moreover have "10 \<notin> set l'" using Cons.IH [of l'] sp by simp
      ultimately show ?thesis using False by auto
    next
      assume "l \<in> set ls"
      then show ?thesis using Cons.IH [of l] sp by simp
    qed
  qed
qed

lemma parse_queries_subseq: "subseq (parse_queries x) (map py_strip (split_nl (py_strip x)))"
  unfolding parse_queries_def by (simp add: subseq_map)

lemma parse_queries_elem:
  "a \<in> set (parse_queries x) \<Longrightarrow>
   a \<noteq> [] \<and> py_strip a = a \<and> (\<exists>line \<in> set (split_nl (py_strip x)). a = py_strip line)"
  unfolding parse_queries_def by (auto simp: py_strip_idem)

text \<open>
  C7. \<open>generate_multi_queries\<close> always returns a list and never raises. When the call
  of the language model raises, the list is the question alone. When the model answers
  \<open>x\<close>, the list is the question followed by at most \<open>MULTI_QUERY_COUNT\<close> alternates; each
  alternate is a line of the (trimmed) answer \<open>x\<close>, trimmed, not empty and without a
  newline, and the alternates stand in the order of the lines.
\<close>

theorem generate_multi_queries_never_raises:
  fixes r :: "'s retriever" and question w
  defines "call \<equiv> invoke (r_llm r) (MultiQueryPrompt question MULTI_QUERY_COUNT) w"
  shows "(\<exists>queries. fst (generate_multi_queries r question w) = Inr queries) \<and>
    (isl (fst call) \<longrightarrow> fst (generate_multi_queries r question w) = Inr [question]) \<and>
    (\<forall>x. fst call = Inr x \<longrightarrow>
       (\<exists>alts. fst (generate_multi_queries r question w) = Inr (question # alts) \<and>
          length alts \<le> MULTI_QUERY_COUNT \<and>
          subseq alts (map py_strip (split_nl (py_strip x))) \<and>
          (\<forall>a \<in> set alts. a \<noteq> [] \<and> py_strip a = a \<and> 10 \<notin> set a \<and>
             (\<exists>line \<in> set (split_nl (py_strip x)). a = py_strip line))))"
proof -
  obtain res w' where c: "invoke (r_llm r) (MultiQueryPrompt question MULTI_QUERY_COUNT) w = (res, w')"
    by (cases "invoke (r_llm r) (MultiQueryPrompt question MULTI_QUERY_COUNT) w")
  show ?thesis
  proof (cases res)
    case (Inl e)
    with c show ?thesis by (simp add: call_def generate_multi_queries_def)
  next
    case (Inr x)
    let ?alts = "take MULTI_QUERY_COUNT (parse_queries x)"
    have g: "fst (generate_multi_queries r question w) = Inr (question # ?alts)"
      using c Inr by (simp add: generate_multi_queries_def)
    have len: "length ?alts \<le> MULTI_QUERY_COUNT" by simp
    have "subseq ?alts (parse_queries x)"
      by (metis append_take_drop_id prefix_def prefix_imp_subseq)
    then have sub: "subseq ?alts (map py_strip (split_nl (py_strip x)))"
      using parse_queries_subseq subseq_order.order_trans by blast
    have el: "\<forall>a \<in> set ?alts. a \<noteq> [] \<and> py_strip a = a \<and> 10 \<notin> set a \<and>
        (\<exists>line \<in> set (split_nl (py_strip x)). a = py_strip line)"
    proof
      fix a assume "a \<in> set ?alts"
      then have "a \<in> set (parse_queries x)" by (rule in_set_takeD)
      then have p: "a \<noteq> [] \<and> py_strip a = a \<and> (\<exists>line \<in> set (split_nl (py_strip x)). a = py_strip line)"
        by (rule parse_queries_elem)
      then obtain line where line: "line \<in> set (split_nl (py_strip x))" "a = py_strip line" by blast
      have "set (py_strip line) \<subseteq> set line"
        unfolding py_strip_def by (metis set_dropWhileD set_rev subsetI)
      with split_nl_no_newline [OF line(1)] line(2) have "10 \<notin> set a" by auto
      with p show "a \<noteq> [] \<and> py_strip a = a \<and> 10 \<notin> set a \<and>
        (\<exists>line \<in> set (split_nl (py_strip x)). a = py_strip line)" by blast
    qed
    from g len sub el c Inr show ?thesis by (auto simp: call_def)
  qed
qed


lemma parse_queries_example:
  "parse_queries five_lines =
   [ascii ''What does SEBI require?'', ascii ''Disclosure norms'', ascii ''a'', ascii ''b'', ascii ''c'']"
  by (simp add: parse_queries_def five_lines_def str_eval)

theorem generate_multi_queries_never_raises_witness:
  "isl (fst (invoke failing_llm (MultiQueryPrompt (ascii ''fees'') MULTI_QUERY_COUNT) world0)) \<and>
   fst (generate_multi_queries (stub_retriever failing_llm empty_search) (ascii ''fees'') world0) =
     Inr [ascii ''fees''] \<and>
   fst (generate_multi_queries
     (stub_retriever (constant_llm five_lines)
        empty_search) (ascii ''fees'') world0) =
     Inr [ascii ''fees'', ascii ''What does SEBI require?'', ascii ''Disclosure norms'', ascii ''a'']"
proof -
  let ?r = "stub_retriever failing_llm empty_search"
  have f: "isl (fst (invoke failing_llm (MultiQueryPrompt (ascii ''fees'') MULTI_QUERY_COUNT) world0))"
    by (simp add: invoke_def failing_llm_def)
  then have "isl (fst (invoke (r_llm ?r) (MultiQueryPrompt (ascii ''fees'') MULTI_QUERY_COUNT) world0))"
    by (simp add: stub_retriever_def)
  with generate_multi_queries_never_raises [where r = ?r and question = "ascii ''fees''" and w = world0]
  have a: "fst (generate_multi_queries ?r (ascii ''fees'') world0) = Inr [ascii ''fees'']"
    by blast
  have b: "fst (generate_multi_queries
     (stub_retriever (constant_llm five_lines)
        empty_search) (ascii ''fees'') world0) =
     Inr [ascii ''fees'', ascii ''What does SEBI require?'', ascii ''Disclosure norms'', ascii ''a'']"
    unfolding generate_multi_queries_def
    by (simp add: stub_retriever_def invoke_def constant_llm_def parse_queries_example
        MULTI_QUERY_COUNT_def)
  from f a b show ?thesis by blast
qed

section \<open>Properties of the rank fusion\<close>

subsection \<open>Evaluating floats\<close>

text \<open>
  Equations that compute \<open>bit_length\<close> and the integer part of a quotient on numerals,
  and the values the definitions of the float arithmetic are evaluated with.
\<close>

lemma bit_length_0: "bit_length 0 = 0"
  by (simp add: bit_length.simps)

lemma bit_length_One: "bit_length (Suc 0) = Suc 0"
  by (simp add: bit_length.simps)

lemma bit_length_Bit0: "bit_length (numeral (Num.Bit0 n)) = Suc (bit_length (numeral n))"
  by (subst bit_length.simps) (simp add: numeral_Bit0_div_2)

lemma bit_length_Bit1: "bit_length (numeral (Num.Bit1 n)) = Suc (bit_length (numeral n))"
  by (subst bit_length.simps) (simp add: numeral_Bit1_div_2)

lemma floor_numeral_div: "\<lfloor>numeral a / numeral b :: rat\<rfloor> = numeral a div numeral b"
  using floor_divide_of_int_eq [of "numeral a" "numeral b", where ?'a = rat] by simp

lemmas float_eval = to_double_def exponent_def exponent_below_def pow2_def round_half_even_def
  nearest_even_def round_to_def float_add_def float_recip_def int_to_float_def
  bit_length_0 bit_length_One bit_length_Bit0 bit_length_Bit1 floor_numeral_div


subsection \<open>Small integers are doubles\<close>

text \<open>
  An integer below \<open>2 ^ 53\<close> has at most 53 binary digits and is converted to a float
  without rounding, so \<open>1.0 / n\<close> is the quotient \<open>1 / n\<close> rounded once.
\<close>

lemma bit_length_le: "n < 2 ^ m \<Longrightarrow> bit_length n \<le> m"
proof (induction m arbitrary: n)
  case 0
  then show ?case by (simp add: bit_length.simps)
next
  case (Suc m)
  show ?case
  proof (cases "n = 0")
    case True
    then show ?thesis by (simp add: bit_length.simps)
  next
    case False
    have "n div 2 < 2 ^ m" using Suc.prems by simp
    then have "bit_length (n div 2) \<le> m" by (rule Suc.IH)
    then show ?thesis using False by (subst bit_length.simps) simp
  qed
qed

lemma bit_length_pos: "0 < n \<Longrightarrow> 0 < bit_length n"
  by (subst bit_length.simps) simp

lemma round_half_even_of_int: "round_half_even (of_int m) = m"
  by (simp add: round_half_even_def nearest_even_def)

lemma to_double_of_int:
  assumes "0 < n" and "n < 2 ^ 53"
  shows "to_double (of_int n) = of_int n"
proof -
  define b where "b = bit_length (nat n)"
  have "nat n < 2 ^ 53" using assms by (simp add: nat_less_iff)
  then have le: "b \<le> 53" unfolding b_def by (rule bit_length_le)
  have pos: "0 < b" unfolding b_def using assms by (intro bit_length_pos) simp
  define d where "d = 53 - b"
  have a: "\<bar>of_int n :: rat\<bar> = of_int n" and g: "sgn (of_int n :: rat) = 1" and z: "(of_int n :: rat) \<noteq> 0"
    using assms by simp_all
  have e: "exponent (of_int n) = int b - 1"
    using assms by (simp add: exponent_def b_def)
  have s: "max (int b - 1 - 52) (- 1074) = - int d"
    using le pos by (simp add: d_def)
  have p: "pow2 (- int d) = 1 / 2 ^ d"
    by (simp add: pow2_def)
  have "of_int n / (1 / 2 ^ d) = (of_int (n * 2 ^ d) :: rat)" by simp
  then have "round_to (- int d) (of_int n) = of_int (n * 2 ^ d) * (1 / 2 ^ d)"
    unfolding round_to_def p by (simp only: round_half_even_of_int)
  then have r: "round_to (- int d) (of_int n) = of_int n" by simp
  show ?thesis
    unfolding to_double_def a g e s r using z by simp
qed

lemma float_recip_small:
  assumes "0 < n" and "n < 2 ^ 53"
  shows "float_recip n = Inr (to_double (1 / of_int n))"
proof -
  have "(of_int n :: rat) < of_int (2 ^ 53)" using assms(2) by (simp only: of_int_less_iff)
  also have "(of_int (2 ^ 53) :: rat) = 2 ^ 53" by simp
  also have "(2::rat) ^ 53 \<le> 2 ^ 1024" by (rule power_increasing) simp_all
  finally have lt: "(of_int n :: rat) < 2 ^ 1024" .
  have a: "\<bar>of_int n :: rat\<bar> = of_int n" and z: "(of_int n :: rat) \<noteq> 0"
    using assms by simp_all
  have big: "\<not> 2 ^ 1024 \<le> \<bar>of_int n :: rat\<bar>"
    unfolding a using lt by (simp only: not_le)
  show ?thesis
    unfolding float_recip_def int_to_float_def to_double_of_int [OF assms] using big z
    by (simp only: if_False sum.case)
qed

subsection \<open>The scores\<close>

lemma first_seen_snoc:
  "first_seen (xs @ [x]) = (if x \<in> set xs then first_seen xs else first_seen xs @ [x])"
  by (simp add: first_seen_def)

lemma first_seen_set [simp]: "set (first_seen xs) = set xs"
  by (simp add: first_seen_def)

lemma first_seen_distinct [simp]: "distinct (first_seen xs)"
  by (simp add: first_seen_def)

text \<open>
  The two loops, when no quotient raises: one update of the dictionary for each
  occurrence.
\<close>

lemma rrf_ranks_foldl:
  assumes "\<forall>r < length docs. f_recip fl (int (rank + r) + k) = Inr (recip (int (rank + r) + k))"
  shows "rrf_ranks fl dmp k rank docs fused =
    Inr (foldl (\<lambda>acc (key, r). fused_add fl acc key (recip (int r + k))) fused
          (zip (map dmp docs) [rank..<rank + length docs]))"
  using assms
proof (induction docs arbitrary: rank fused)
  case Nil
  show ?case by simp
next
  case (Cons d ds)
  have first: "f_recip fl (int rank + k) = Inr (recip (int rank + k))"
    using Cons.prems [rule_format, of 0] by simp
  have rest: "\<forall>r < length ds. f_recip fl (int (Suc rank + r) + k) = Inr (recip (int (Suc rank + r) + k))"
  proof (intro allI impI)
    fix r assume "r < length ds"
    then have "Suc r < length (d # ds)" by simp
    from Cons.prems [rule_format, OF this]
    show "f_recip fl (int (Suc rank + r) + k) = Inr (recip (int (Suc rank + r) + k))" by simp
  qed
  have up: "[rank..<rank + length (d # ds)] = rank # [Suc rank..<Suc rank + length ds]"
    using upt_conv_Cons [of rank "rank + length (d # ds)"] by simp
  show ?case
    unfolding up using first Cons.IH [OF rest] by simp
qed

lemma rrf_lists_foldl:
  assumes "\<forall>docs \<in> set result_lists. \<forall>r < length docs. f_recip fl (int r + k) = Inr (recip (int r + k))"
  shows "rrf_lists fl dmp k result_lists fused =
    Inr (foldl (\<lambda>acc (key, r). fused_add fl acc key (recip (int r + k))) fused
          (occurrences dmp result_lists))"
  using assms
proof (induction result_lists arbitrary: fused)
  case Nil
  show ?case by (simp add: occurrences_def)
next
  case (Cons docs rest)
  have "\<forall>r < length docs. f_recip fl (int (0 + r) + k) = Inr (recip (int (0 + r) + k))"
    using Cons.prems by simp
  from rrf_ranks_foldl [OF this, of dmp fused] Cons.IH Cons.prems
  show ?case
    by (simp add: occurrences_def)
qed

text \<open>The dictionary after a list of occurrences: every key seen, with its score.\<close>

lemma fused_after_occurrences:
  "foldl (\<lambda>acc (key, r). fused_add fl acc key (recip (int r + k))) [] occs =
    map (\<lambda>key. (key, score_of fl recip k occs key)) (first_seen (map fst occs))"
proof (induction occs rule: rev_induct)
  case Nil
  show ?case by (simp add: first_seen_def)
next
  case (snoc occ occs)
  obtain key r where occ: "occ = (key, r)" by (cases occ)
  let ?x = "recip (int r + k)"
  let ?fused = "map (\<lambda>key. (key, score_of fl recip k occs key)) (first_seen (map fst occs))"
  have other: "\<And>key'. key' \<noteq> key \<Longrightarrow>
      score_of fl recip k (occs @ [occ]) key' = score_of fl recip k occs key'"
    by (simp add: score_of_def occ)
  have same: "score_of fl recip k (occs @ [occ]) key = f_add fl (score_of fl recip k occs key) ?x"
    by (simp add: score_of_def occ)
  have keys: "map fst ?fused = first_seen (map fst occs)"
    by (simp add: comp_def)
  show ?case
  proof (cases "key \<in> set (map fst occs)")
    case True
    have "fused_add fl ?fused key ?x =
        map (\<lambda>(k', v). if k' = key then (k', f_add fl v ?x) else (k', v)) ?fused"
      unfolding fused_add_def keys using True by simp
    also have "\<dots> = map (\<lambda>key'. (key', score_of fl recip k (occs @ [occ]) key')) (first_seen (map fst occs))"
      using other same by auto
    finally show ?thesis
      using snoc True by (simp add: occ first_seen_snoc)
  next
    case False
    then have "filter (\<lambda>(key', rank). key' = key) occs = []"
      by (force simp: filter_empty_conv)
    then have fresh: "score_of fl recip k (occs @ [occ]) key = f_add fl (f_zero fl) ?x"
      by (simp add: score_of_def occ)
    have "fused_add fl ?fused key ?x = ?fused @ [(key, f_add fl (f_zero fl) ?x)]"
      unfolding fused_add_def keys using False by simp
    also have "\<dots> = map (\<lambda>key'. (key', score_of fl recip k (occs @ [occ]) key')) (first_seen (map fst occs) @ [key])"
    proof -
      have "\<And>a. a \<in> set (map fst occs) \<Longrightarrow>
          score_of fl recip k occs a = score_of fl recip k (occs @ [occ]) a"
        using other False by metis
      then show ?thesis using fresh by simp
    qed
    finally show ?thesis
      using snoc False by (simp add: occ first_seen_snoc)
  qed
qed

lemma occurrences_keys: "map fst (occurrences dmp result_lists) = concat (map (map dmp) result_lists)"
  by (induction result_lists) (simp_all add: occurrences_def)

lemma rrf_fused_scores:
  assumes "\<forall>docs \<in> set result_lists. \<forall>r < length docs. f_recip fl (int r + k) = Inr (recip (int r + k))"
  shows "rrf_fused fl dmp result_lists k =
    Inr (map (\<lambda>key. (key, score_of fl recip k (occurrences dmp result_lists) key))
          (first_seen (concat (map (map dmp) result_lists))))"
  unfolding rrf_fused_def rrf_lists_foldl [OF assms] fused_after_occurrences occurrences_keys
  by simp

lemma float_score_of:
  "score_of binary64 (\<lambda>n. to_double (1 / of_int n)) k (occurrences dmp result_lists) key =
     float_score dmp result_lists k key"
  by (simp add: score_of_def float_score_def binary64_def)

lemma binary64_quotients:
  assumes "0 < k" and "\<forall>docs \<in> set result_lists. k + int (length docs) \<le> 2 ^ 53"
  shows "\<forall>docs \<in> set result_lists. \<forall>r < length docs.
    f_recip binary64 (int r + k) = Inr (to_double (1 / of_int (int r + k)))"
proof (intro ballI allI impI)
  fix docs r assume d: "docs \<in> set result_lists" and r: "r < length docs"
  have "0 < int r + k" using assms(1) by simp
  moreover have "int r + k < 2 ^ 53" using assms(2) d r by fastforce
  ultimately show "f_recip binary64 (int r + k) = Inr (to_double (1 / of_int (int r + k)))"
    by (simp add: binary64_def float_recip_small)
qed

lemma binary64_fused:
  assumes "0 < k" and "\<forall>docs \<in> set result_lists. k + int (length docs) \<le> 2 ^ 53"
  shows "rrf_fused binary64 dmp result_lists k =
    Inr (map (\<lambda>key. (key, float_score dmp result_lists k key))
          (first_seen (concat (map (map dmp) result_lists))))"
  using rrf_fused_scores [OF binary64_quotients [OF assms], of dmp]
  by (simp add: float_score_of)

subsection \<open>The descending stable sort\<close>

lemma insort_key_graph:
  "insort_key snd (x, sc x) (map (\<lambda>y. (y, sc y)) ys) = map (\<lambda>y. (y, sc y)) (insort_key sc x ys)"
  by (induction ys) simp_all

lemma sort_key_graph:
  "sort_key snd (map (\<lambda>y. (y, sc y)) xs) = map (\<lambda>y. (y, sc y)) (sort_key sc xs)"
  by (induction xs) (simp_all add: insort_key_graph)

lemma py_sorted_reverse_graph:
  "map fst (py_sorted_reverse snd (map (\<lambda>y. (y, sc y)) xs)) = py_sorted_reverse sc xs"
proof -
  have "rev (map (\<lambda>y. (y, sc y)) xs) = map (\<lambda>y. (y, sc y)) (rev xs)" by (rule rev_map)
  then have "sort_key snd (rev (map (\<lambda>y. (y, sc y)) xs)) = map (\<lambda>y. (y, sc y)) (sort_key sc (rev xs))"
    by (simp only: sort_key_graph)
  then show ?thesis
    by (simp add: py_sorted_reverse_def rev_map comp_def)
qed

lemma py_sorted_reverse_set [simp]: "set (py_sorted_reverse f xs) = set xs"
  by (simp add: py_sorted_reverse_def)

lemma py_sorted_reverse_distinct [simp]: "distinct (py_sorted_reverse f xs) = distinct xs"
  by (simp add: py_sorted_reverse_def)

lemma py_sorted_reverse_descending: "sorted_wrt (\<lambda>a b. f b \<le> f a) (py_sorted_reverse f xs)"
proof -
  have "sorted (map f (sort_key f (rev xs)))" by (rule sorted_sort_key)
  then have "sorted_wrt (\<lambda>a b. f a \<le> f b) (sort_key f (rev xs))"
    by (simp add: sorted_wrt_map)
  then show ?thesis
    by (simp add: py_sorted_reverse_def sorted_wrt_rev)
qed

lemma py_sorted_reverse_stable:
  "filter (\<lambda>x. f x = v) (py_sorted_reverse f xs) = filter (\<lambda>x. f x = v) xs"
  by (simp add: py_sorted_reverse_def rev_filter [symmetric] sort_key_stable)

lemma fusion_of_fused:
  assumes "rrf_fused fl dmp result_lists k = Inr (map (\<lambda>key. (key, score key)) appearance)"
  shows "reciprocal_rank_fusion fl dmp lds result_lists k =
    Inr (map lds (py_sorted_reverse score appearance))"
proof -
  have "map (\<lambda>(doc_str, _). lds doc_str) (py_sorted_reverse snd (map (\<lambda>key. (key, score key)) appearance)) =
      map lds (map fst (py_sorted_reverse snd (map (\<lambda>key. (key, score key)) appearance)))"
    by (simp add: case_prod_beta comp_def)
  also have "\<dots> = map lds (py_sorted_reverse score appearance)"
    by (simp only: py_sorted_reverse_graph)
  finally show ?thesis
    by (simp add: reciprocal_rank_fusion_def assms)
qed




subsection \<open>Runs on the stub documents\<close>

lemmas stub_docs = doc_a_def doc_b_def doc_c_def doc_d_def doc_e_def

lemma quotient_60: "to_double (1 / 60) = 4803839602528529 / 2 ^ 58"
  and quotient_61: "to_double (1 / 61) = 4725088133634619 / 2 ^ 58"
  and quotient_62: "to_double (1 / 62) = 1162219258676257 / 2 ^ 56"
  and quotient_63: "to_double (1 / 63) = 285942833483841 / 2 ^ 54"
  and quotient_64: "to_double (1 / 64) = 1 / 2 ^ 6"
  by (simp_all add: float_eval)

lemmas quotients = quotient_60 quotient_61 quotient_62 quotient_63 quotient_64


lemma stub_loads_dumps:
  "stub_loads (page_content doc_a) = doc_a"
  "stub_loads (page_content doc_b) = doc_b"
  "stub_loads (page_content doc_c) = doc_c"
  "stub_loads (page_content doc_d) = doc_d"
  "stub_loads (page_content doc_e) = doc_e"
  by (simp_all add: stub_loads_def stub_docs ascii_def)



text \<open>
  The score in floats is the sum of the quotients only up to rounding, and the order of
  the additions matters. In \<open>tied_lists\<close> the chunks \<open>a\<close> and \<open>b\<close> have the same sum of
  \<open>1 / (r + 60)\<close>, and \<open>a\<close> appears first, so the ranking by the sum lists \<open>a\<close> before
  \<open>b\<close>. The floats of the two differ in the last bit, and the function returns \<open>b\<close>
  before \<open>a\<close>.
\<close>

lemma tied_appearance:
  "first_seen (concat (map (map stub_dumps) tied_lists)) =
     [page_content doc_c, page_content doc_a, page_content doc_b, page_content doc_d]"
  by (simp add: first_seen_def tied_lists_def stub_dumps_def stub_docs ascii_def)

lemma tied_float_terms:
  "float_score stub_dumps tied_lists RRF_K (page_content doc_c) =
     float_add (float_add (float_add (float_add 0 (to_double (1 / 60))) (to_double (1 / 60)))
       (to_double (1 / 60))) (to_double (1 / 60))"
  "float_score stub_dumps tied_lists RRF_K (page_content doc_a) =
     float_add (float_add (float_add (float_add 0 (to_double (1 / 61))) (to_double (1 / 61)))
       (to_double (1 / 62))) (to_double (1 / 63))"
  "float_score stub_dumps tied_lists RRF_K (page_content doc_b) =
     float_add (float_add (float_add (float_add 0 (to_double (1 / 62))) (to_double (1 / 63)))
       (to_double (1 / 61))) (to_double (1 / 61))"
  "float_score stub_dumps tied_lists RRF_K (page_content doc_d) =
     float_add (float_add 0 (to_double (1 / 62))) (to_double (1 / 62))"
  by (simp_all add: float_score_def occurrences_def tied_lists_def RRF_K_def stub_dumps_def
      stub_docs ascii_def upt_rec)

lemma tied_float_scores:
  "float_score stub_dumps tied_lists RRF_K (page_content doc_c) = 4803839602528529 / 2 ^ 56"
  "float_score stub_dumps tied_lists RRF_K (page_content doc_a) = 2334267329714465 / 2 ^ 55"
  "float_score stub_dumps tied_lists RRF_K (page_content doc_b) = 4668534659428931 / 2 ^ 56"
  "float_score stub_dumps tied_lists RRF_K (page_content doc_d) = 1162219258676257 / 2 ^ 55"
  unfolding tied_float_terms quotients by (simp_all add: float_eval)

lemma tied_exact_scores:
  "exact_score stub_dumps tied_lists RRF_K (page_content doc_c) = 1 / 60 + 1 / 60 + 1 / 60 + 1 / 60"
  "exact_score stub_dumps tied_lists RRF_K (page_content doc_a) = 1 / 61 + 1 / 61 + 1 / 62 + 1 / 63"
  "exact_score stub_dumps tied_lists RRF_K (page_content doc_b) = 1 / 62 + 1 / 63 + 1 / 61 + 1 / 61"
  "exact_score stub_dumps tied_lists RRF_K (page_content doc_d) = 1 / 62 + 1 / 62"
  by (simp_all add: exact_score_def occurrences_def tied_lists_def RRF_K_def stub_dumps_def
      stub_docs ascii_def upt_rec)


theorem reciprocal_rank_fusion_rounding_counterexample:
  "reciprocal_rank_fusion binary64 stub_dumps stub_loads tied_lists RRF_K =
     Inr [doc_c, doc_b, doc_a, doc_d] \<and>
   claimed_fusion stub_dumps stub_loads tied_lists RRF_K = [doc_c, doc_a, doc_b, doc_d] \<and>
   exact_score stub_dumps tied_lists RRF_K (stub_dumps doc_a) =
     exact_score stub_dumps tied_lists RRF_K (stub_dumps doc_b) \<and>
   float_score stub_dumps tied_lists RRF_K (stub_dumps doc_a) <
     float_score stub_dumps tied_lists RRF_K (stub_dumps doc_b)"
proof -
  have k: "0 < RRF_K" by (simp add: RRF_K_def)
  have small: "\<forall>docs \<in> set tied_lists. RRF_K + int (length docs) \<le> 2 ^ 53"
    by (simp add: RRF_K_def tied_lists_def)
  have "rrf_fused binary64 stub_dumps tied_lists RRF_K =
      Inr (map (\<lambda>key. (key, float_score stub_dumps tied_lists RRF_K key))
        [page_content doc_c, page_content doc_a, page_content doc_b, page_content doc_d])"
    using binary64_fused [OF k small, of stub_dumps] by (simp only: tied_appearance)
  then have "reciprocal_rank_fusion binary64 stub_dumps stub_loads tied_lists RRF_K =
      Inr (map stub_loads (py_sorted_reverse (float_score stub_dumps tied_lists RRF_K)
        [page_content doc_c, page_content doc_a, page_content doc_b, page_content doc_d]))"
    by (rule fusion_of_fused)
  also have "py_sorted_reverse (float_score stub_dumps tied_lists RRF_K)
        [page_content doc_c, page_content doc_a, page_content doc_b, page_content doc_d] =
      [page_content doc_c, page_content doc_b, page_content doc_a, page_content doc_d]"
    by (simp add: py_sorted_reverse_def tied_float_scores)
  finally have code: "reciprocal_rank_fusion binary64 stub_dumps stub_loads tied_lists RRF_K =
      Inr [doc_c, doc_b, doc_a, doc_d]"
    by (simp add: stub_loads_dumps)
  have "py_sorted_reverse (exact_score stub_dumps tied_lists RRF_K)
        [page_content doc_c, page_content doc_a, page_content doc_b, page_content doc_d] =
      [page_content doc_c, page_content doc_a, page_content doc_b, page_content doc_d]"
    by (simp add: py_sorted_reverse_def tied_exact_scores)
  then have spec: "claimed_fusion stub_dumps stub_loads tied_lists RRF_K = [doc_c, doc_a, doc_b, doc_d]"
    by (simp add: claimed_fusion_def tied_appearance stub_loads_dumps)
  have tie: "exact_score stub_dumps tied_lists RRF_K (stub_dumps doc_a) =
      exact_score stub_dumps tied_lists RRF_K (stub_dumps doc_b)"
    by (simp add: stub_dumps_def tied_exact_scores)
  have less: "float_score stub_dumps tied_lists RRF_K (stub_dumps doc_a) <
      float_score stub_dumps tied_lists RRF_K (stub_dumps doc_b)"
    by (simp add: stub_dumps_def tied_float_scores)
  from code spec tie less show ?thesis by simp
qed


text \<open>A single list is returned as it is: the quotients fall with the rank.\<close>

lemma rrf_five:
  "reciprocal_rank_fusion binary64 stub_dumps stub_loads [[doc_a, doc_b, doc_c, doc_d, doc_e]] RRF_K =
     Inr [doc_a, doc_b, doc_c, doc_d, doc_e]"
proof -
  let ?lists = "[[doc_a, doc_b, doc_c, doc_d, doc_e]]"
  let ?keys = "[page_content doc_a, page_content doc_b, page_content doc_c, page_content doc_d,
    page_content doc_e]"
  have k: "0 < RRF_K" by (simp add: RRF_K_def)
  have small: "\<forall>docs \<in> set ?lists. RRF_K + int (length docs) \<le> 2 ^ 53"
    by (simp add: RRF_K_def)
  have order: "first_seen (concat (map (map stub_dumps) ?lists)) = ?keys"
    by (simp add: first_seen_def stub_dumps_def stub_docs ascii_def)
  have terms: "float_score stub_dumps ?lists RRF_K (page_content doc_a) = float_add 0 (to_double (1 / 60))"
    "float_score stub_dumps ?lists RRF_K (page_content doc_b) = float_add 0 (to_double (1 / 61))"
    "float_score stub_dumps ?lists RRF_K (page_content doc_c) = float_add 0 (to_double (1 / 62))"
    "float_score stub_dumps ?lists RRF_K (page_content doc_d) = float_add 0 (to_double (1 / 63))"
    "float_score stub_dumps ?lists RRF_K (page_content doc_e) = float_add 0 (to_double (1 / 64))"
    by (simp_all add: float_score_def occurrences_def RRF_K_def stub_dumps_def stub_docs ascii_def
        upt_rec)
  have scores: "float_score stub_dumps ?lists RRF_K (page_content doc_a) = 4803839602528529 / 2 ^ 58"
    "float_score stub_dumps ?lists RRF_K (page_content doc_b) = 4725088133634619 / 2 ^ 58"
    "float_score stub_dumps ?lists RRF_K (page_content doc_c) = 1162219258676257 / 2 ^ 56"
    "float_score stub_dumps ?lists RRF_K (page_content doc_d) = 285942833483841 / 2 ^ 54"
    "float_score stub_dumps ?lists RRF_K (page_content doc_e) = 1 / 2 ^ 6"
    unfolding terms quotients by (simp_all add: float_eval)
  have "rrf_fused binary64 stub_dumps ?lists RRF_K =
      Inr (map (\<lambda>key. (key, float_score stub_dumps ?lists RRF_K key)) ?keys)"
    using binary64_fused [OF k small, of stub_dumps] by (simp only: order)
  then have "reciprocal_rank_fusion binary64 stub_dumps stub_loads ?lists RRF_K =
      Inr (map stub_loads (py_sorted_reverse (float_score stub_dumps ?lists RRF_K) ?keys))"
    by (rule fusion_of_fused)
  also have "py_sorted_reverse (float_score stub_dumps ?lists RRF_K) ?keys = ?keys"
    by (simp add: py_sorted_reverse_def scores)
  finally show ?thesis by (simp add: stub_loads_dumps)
qed

lemma rrf_two:
  "reciprocal_rank_fusion binary64 stub_dumps stub_loads [[doc_a, doc_b]] RRF_K = Inr [doc_a, doc_b]"
proof -
  let ?lists = "[[doc_a, doc_b]]"
  let ?keys = "[page_content doc_a, page_content doc_b]"
  have k: "0 < RRF_K" by (simp add: RRF_K_def)
  have small: "\<forall>docs \<in> set ?lists. RRF_K + int (length docs) \<le> 2 ^ 53"
    by (simp add: RRF_K_def)
  have order: "first_seen (concat (map (map stub_dumps) ?lists)) = ?keys"
    by (simp add: first_seen_def stub_dumps_def stub_docs ascii_def)
  have terms: "float_score stub_dumps ?lists RRF_K (page_content doc_a) = float_add 0 (to_double (1 / 60))"
    "float_score stub_dumps ?lists RRF_K (page_content doc_b) = float_add 0 (to_double (1 / 61))"
    by (simp_all add: float_score_def occurrences_def RRF_K_def stub_dumps_def stub_docs ascii_def
        upt_rec)
  have scores: "float_score stub_dumps ?lists RRF_K (page_content doc_a) = 4803839602528529 / 2 ^ 58"
    "float_score stub_dumps ?lists RRF_K (page_content doc_b) = 4725088133634619 / 2 ^ 58"
    unfolding terms quotients by (simp_all add: float_eval)
  have "rrf_fused binary64 stub_dumps ?lists RRF_K =
      Inr (map (\<lambda>key. (key, float_score stub_dumps ?lists RRF_K key)) ?keys)"
    using binary64_fused [OF k small, of stub_dumps] by (simp only: order)
  then have "reciprocal_rank_fusion binary64 stub_dumps stub_loads ?lists RRF_K =
      Inr (map stub_loads (py_sorted_reverse (float_score stub_dumps ?lists RRF_K) ?keys))"
    by (rule fusion_of_fused)
  also have "py_sorted_reverse (float_score stub_dumps ?lists RRF_K) ?keys = ?keys"
    by (simp add: py_sorted_reverse_def scores)
  finally show ?thesis by (simp add: stub_loads_dumps)
qed

section \<open>The no-evidence path\<close>

subsection \<open>The log of prompts\<close>

lemma invoke_log: "invoke l p w = (res, w') \<Longrightarrow> llm_log w' = llm_log w @ [p]"
  by (auto simp: invoke_def split: prod.splits)

lemma ext_run_log: "ext_run f w = (res, w') \<Longrightarrow> llm_log w' = llm_log w"
  by (auto simp: ext_run_def split: prod.splits)

lemma generate_multi_queries_log:
  "generate_multi_queries r question w = (res, w') \<Longrightarrow>
   llm_log w' = llm_log w @ [MultiQueryPrompt question MULTI_QUERY_COUNT]"
  by (auto simp: generate_multi_queries_def split: prod.splits sum.splits dest: invoke_log)

lemma search_fallback_log: "search_fallback r q w = (res, w') \<Longrightarrow> llm_log w' = llm_log w"
  by (auto simp: search_fallback_def split: prod.splits sum.splits dest: ext_run_log)

lemma search_query_log: "search_query r meta q w = (res, w') \<Longrightarrow> llm_log w' = llm_log w"
  by (auto simp: search_query_def split: prod.splits sum.splits option.splits if_splits
      dest!: ext_run_log search_fallback_log)

lemma search_loop_log: "search_loop r meta qs w = (res, w') \<Longrightarrow> llm_log w' = llm_log w"
proof (induction qs arbitrary: w res w')
  case Nil
  then show ?case by simp
next
  case (Cons q qs)
  obtain a w1 where a: "search_query r meta q w = (a, w1)" by (cases "search_query r meta q w")
  obtain b w2 where b: "search_loop r meta qs w1 = (b, w2)" by (cases "search_loop r meta qs w1")
  from Cons.prems a b have "w' = w2" by simp
  with Cons.IH [OF b] search_query_log [OF a] show ?case by simp
qed

lemma get_definitions_context_log:
  "get_definitions_context r question w = (res, w') \<Longrightarrow> llm_log w' = llm_log w"
  by (auto simp: get_definitions_context_def split: prod.splits sum.splits option.splits if_splits
      dest!: ext_run_log)

lemma retrieve_log:
  assumes "retrieve fl r question w = (res, w')"
  shows "llm_log w' = llm_log w @ [MultiQueryPrompt question MULTI_QUERY_COUNT]"
proof -
  obtain qr w1 where g: "generate_multi_queries r question w = (qr, w1)"
    by (cases "generate_multi_queries r question w")
  note l1 = generate_multi_queries_log [OF g]
  show ?thesis
  proof (cases qr)
    case (Inl e)
    with assms g l1 show ?thesis by (simp add: retrieve_def)
  next
    case (Inr queries)
    obtain all_results w2 where s: "search_loop r (build_metadata_filter question) queries w1 = (all_results, w2)"
      by (cases "search_loop r (build_metadata_filter question) queries w1")
    note l2 = search_loop_log [OF s]
    obtain defs w3 where d: "get_definitions_context r question w2 = (defs, w3)"
      by (cases "get_definitions_context r question w2")
    note l3 = get_definitions_context_log [OF d]
    from assms g Inr s d have "w' = w2 \<or> w' = w3"
      by (auto simp: retrieve_def Let_def split: sum.splits if_splits)
    with l1 l2 l3 show ?thesis by auto
  qed
qed

subsection \<open>Retrieval that finds nothing\<close>

lemma rrf_ranks_Nil: "rrf_ranks fl dmp k rank [] fused = Inr fused"
  by simp

lemma rrf_lists_all_empty:
  "\<forall>docs \<in> set result_lists. docs = [] \<Longrightarrow> rrf_lists fl dmp k result_lists fused = Inr fused"
  by (induction result_lists) auto

lemma reciprocal_rank_fusion_all_empty:
  "\<forall>docs \<in> set result_lists. docs = [] \<Longrightarrow>
   reciprocal_rank_fusion fl dmp lds result_lists k = Inr []"
  by (simp add: reciprocal_rank_fusion_def rrf_fused_def rrf_lists_all_empty py_sorted_reverse_def)

lemma search_query_nothing:
  fixes r :: "'s retriever"
  assumes "\<forall>q f s. fst (vectorstore r q TOP_K f s) = Inr []"
  shows "\<exists>w'. search_query r meta q w = (Some [], w')"
proof -
  have run: "\<And>f (w :: 's world). \<exists>w'. ext_run (vectorstore r q TOP_K f) w = (Inr [], w')"
  proof -
    fix f and w :: "'s world"
    from assms have "fst (vectorstore r q TOP_K f (ext w)) = Inr []" by blast
    then show "\<exists>w'. ext_run (vectorstore r q TOP_K f) w = (Inr [], w')"
      by (cases "vectorstore r q TOP_K f (ext w)") (simp add: ext_run_def)
  qed
  show ?thesis
  proof (cases meta)
    case None
    from run [of None w] obtain w' where "ext_run (vectorstore r q TOP_K None) w = (Inr [], w')" ..
    with None show ?thesis by (simp add: search_query_def)
  next
    case (Some f)
    from run [of "Some f" w] obtain w1 where a: "ext_run (vectorstore r q TOP_K (Some f)) w = (Inr [], w1)" ..
    from run [of None w1] obtain w2 where b: "ext_run (vectorstore r q TOP_K None) w1 = (Inr [], w2)" ..
    from Some a b show ?thesis by (simp add: search_query_def)
  qed
qed

lemma search_loop_nothing:
  assumes "\<forall>q f s. fst (vectorstore r q TOP_K f s) = Inr []"
  shows "\<exists>w'. search_loop r meta qs w = (map (\<lambda>q. []) qs, w')"
proof (induction qs arbitrary: w)
  case Nil
  show ?case by simp
next
  case (Cons q qs)
  from search_query_nothing [OF assms] obtain w1 where a: "search_query r meta q w = (Some [], w1)"
    by blast
  from Cons [of w1] obtain w2 where b: "search_loop r meta qs w1 = (map (\<lambda>q. []) qs, w2)" by blast
  from a b show ?case by simp
qed

lemma retrieve_nothing:
  assumes "\<forall>q f s. fst (vectorstore r q TOP_K f s) = Inr []"
  shows "\<exists>retr w'. retrieve fl r question w = (Inr retr, w') \<and> child_docs retr = []"
proof -
  obtain qr w1 where g: "generate_multi_queries r question w = (qr, w1)"
    by (cases "generate_multi_queries r question w")
  then obtain queries where q: "qr = Inr queries"
    by (auto simp: generate_multi_queries_def split: prod.splits sum.splits)
  from search_loop_nothing [OF assms] obtain w2 where
    s: "search_loop r (build_metadata_filter question) queries w1 = (map (\<lambda>q. []) queries, w2)"
    by blast
  have f: "reciprocal_rank_fusion fl (dumps r) (loads r) (map (\<lambda>q. []) queries) RRF_K = Inr []"
    by (rule reciprocal_rank_fusion_all_empty) simp
  obtain defs w3 where d: "get_definitions_context r question w2 = (defs, w3)"
    by (cases "get_definitions_context r question w2")
  from g q s f d show ?thesis
    by (simp add: retrieve_def Let_def)
qed

text \<open>
  C4. When retrieval yields no child chunk, \<open>query\<close> returns, without raising, the
  result with the fixed not-found answer, no sources, confidence \<open>no_results\<close> and both
  counts zero; the only prompt the run sends to the language model is the query
  expansion, so no answer is generated. A similarity search that returns zero results
  for every query and filter is such a case.
\<close>

theorem query_no_results:
  fixes ch :: "'s chain" and fl :: "('f::linorder) float_ops"
  shows "(\<forall>retr w1. retrieve fl (retriever ch) question w = (Inr retr, w1) \<and> child_docs retr = [] \<longrightarrow>
      query fl ch question w =
        (Inr \<lparr>answer = NOT_FOUND, sources = [], confidence = ascii ''no_results'',
              hallucination_check = ascii ''n/a'', result_queries_used = queries_used retr,
              num_relevant = 0, num_retrieved = 0\<rparr>, w1) \<and>
      llm_log w1 = llm_log w @ [MultiQueryPrompt question MULTI_QUERY_COUNT]) \<and>
    ((\<forall>q f s. fst (vectorstore (retriever ch) q TOP_K f s) = Inr []) \<longrightarrow>
      (\<exists>res w1. query fl ch question w = (Inr res, w1) \<and>
         answer res = NOT_FOUND \<and> sources res = [] \<and> confidence res = ascii ''no_results'' \<and>
         num_relevant res = 0 \<and> num_retrieved res = 0 \<and>
         llm_log w1 = llm_log w @ [MultiQueryPrompt question MULTI_QUERY_COUNT]))"
proof -
  have first: "\<And>retr w1. retrieve fl (retriever ch) question w = (Inr retr, w1) \<Longrightarrow> child_docs retr = [] \<Longrightarrow>
      query fl ch question w =
        (Inr \<lparr>answer = NOT_FOUND, sources = [], confidence = ascii ''no_results'',
              hallucination_check = ascii ''n/a'', result_queries_used = queries_used retr,
              num_relevant = 0, num_retrieved = 0\<rparr>, w1) \<and>
      llm_log w1 = llm_log w @ [MultiQueryPrompt question MULTI_QUERY_COUNT]"
    by (simp add: query_def retrieve_log)
  have second: "(\<forall>q f s. fst (vectorstore (retriever ch) q TOP_K f s) = Inr []) \<longrightarrow>
      (\<exists>res w1. query fl ch question w = (Inr res, w1) \<and>
         answer res = NOT_FOUND \<and> sources res = [] \<and> confidence res = ascii ''no_results'' \<and>
         num_relevant res = 0 \<and> num_retrieved res = 0 \<and>
         llm_log w1 = llm_log w @ [MultiQueryPrompt question MULTI_QUERY_COUNT])"
  proof
    assume "\<forall>q f s. fst (vectorstore (retriever ch) q TOP_K f s) = Inr []"
    from retrieve_nothing [OF this] obtain retr w1 where
      r: "retrieve fl (retriever ch) question w = (Inr retr, w1)" "child_docs retr = []" by blast
    from first [OF r] show "\<exists>res w1. query fl ch question w = (Inr res, w1) \<and>
         answer res = NOT_FOUND \<and> sources res = [] \<and> confidence res = ascii ''no_results'' \<and>
         num_relevant res = 0 \<and> num_retrieved res = 0 \<and>
         llm_log w1 = llm_log w @ [MultiQueryPrompt question MULTI_QUERY_COUNT]"
      by simp
  qed
  from first second show ?thesis by blast
qed

theorem query_no_results_witness:
  "(\<forall>q f s. fst (vectorstore (retriever (stub_chain (scripted_llm (ascii ''grounded'')) empty_search)) q TOP_K f s) = Inr []) \<and>
   (\<exists>res w1. query binary64 (stub_chain (scripted_llm (ascii ''grounded'')) empty_search) (ascii ''fees'') world0 = (Inr res, w1) \<and>
      answer res = NOT_FOUND \<and> sources res = [] \<and> confidence res = ascii ''no_results'' \<and>
      num_relevant res = 0 \<and> num_retrieved res = 0 \<and>
      llm_log w1 = [MultiQueryPrompt (ascii ''fees'') MULTI_QUERY_COUNT])"
proof -
  let ?ch = "stub_chain (scripted_llm (ascii ''grounded'')) empty_search"
  have h: "\<forall>q f s. fst (vectorstore (retriever ?ch) q TOP_K f s) = Inr []"
    by (simp add: stub_chain_def stub_retriever_def empty_search_def)
  from query_no_results [where ch = ?ch and fl = binary64 and question = "ascii ''fees''" and w = world0] h
  have "\<exists>res w1. query binary64 ?ch (ascii ''fees'') world0 = (Inr res, w1) \<and>
      answer res = NOT_FOUND \<and> sources res = [] \<and> confidence res = ascii ''no_results'' \<and>
      num_relevant res = 0 \<and> num_retrieved res = 0 \<and>
      llm_log w1 = llm_log world0 @ [MultiQueryPrompt (ascii ''fees'') MULTI_QUERY_COUNT]"
    by blast
  then have "\<exists>res w1. query binary64 ?ch (ascii ''fees'') world0 = (Inr res, w1) \<and>
      answer res = NOT_FOUND \<and> sources res = [] \<and> confidence res = ascii ''no_results'' \<and>
      num_relevant res = 0 \<and> num_retrieved res = 0 \<and>
      llm_log w1 = [MultiQueryPrompt (ascii ''fees'') MULTI_QUERY_COUNT]"
    by (simp add: world0_def)
  with h show ?thesis by blast
qed

section \<open>The filter fallback\<close>

lemma search_loop_append:
  "search_loop r meta (qs1 @ qs2) w =
     (case search_loop r meta qs1 w of
        (a, w1) \<Rightarrow> (case search_loop r meta qs2 w1 of (b, w2) \<Rightarrow> (a @ b, w2)))"
  by (induction qs1 arbitrary: w) (auto split: prod.splits option.splits)

lemma retrieve_child_docs:
  assumes "generate_multi_queries r question w0 = (Inr queries, w)"
    and "search_loop r (build_metadata_filter question) queries w = (all_results, w')"
    and "all_results \<noteq> []"
    and "retrieve fl r question w0 = (Inr retr, w'')"
  shows "\<exists>fused. reciprocal_rank_fusion fl (dumps r) (loads r) all_results RRF_K = Inr fused \<and>
           child_docs retr = take TOP_K fused"
  using assms by (auto simp: retrieve_def Let_def split: sum.splits prod.splits)

text \<open>
  C3. Let \<open>q\<close> be one of the queries searched with a metadata filter \<open>f\<close>. If the
  filtered similarity search for \<open>q\<close> returns fewer than two results and the unfiltered
  search for \<open>q\<close> that follows returns \<open>docs'\<close>, then the loop body yields \<open>docs'\<close> for
  \<open>q\<close>, and \<open>docs'\<close> stands at the place of \<open>q\<close> in the list of result lists. For every
  question that is expanded into these queries and for which \<open>f\<close> is the filter built,
  that list is what \<open>retrieve\<close> fuses into its child documents.
\<close>

theorem filtered_search_falls_back:
  fixes r :: "'s retriever" and fl :: "('f::linorder) float_ops"
  assumes earlier: "search_loop r (Some f) before w = (found, w1)"
    and filtered: "ext_run (vectorstore r q TOP_K (Some f)) w1 = (Inr docs, w2)"
    and few: "length docs < 2"
    and unfiltered: "ext_run (vectorstore r q TOP_K None) w2 = (Inr docs', w3)"
    and later: "search_loop r (Some f) after w3 = (rest, w4)"
  shows "search_query r (Some f) q w1 = (Some docs', w3) \<and>
    search_loop r (Some f) (before @ q # after) w = (found @ docs' # rest, w4) \<and>
    (\<forall>question w0 retr w5.
       generate_multi_queries r question w0 = (Inr (before @ q # after), w) \<longrightarrow>
       build_metadata_filter question = Some f \<longrightarrow>
       retrieve fl r question w0 = (Inr retr, w5) \<longrightarrow>
       (\<exists>fused. reciprocal_rank_fusion fl (dumps r) (loads r) (found @ docs' # rest) RRF_K = Inr fused \<and>
          child_docs retr = take TOP_K fused))"
proof -
  have one: "search_query r (Some f) q w1 = (Some docs', w3)"
    using filtered few unfiltered by (simp add: search_query_def)
  have loop: "search_loop r (Some f) (before @ q # after) w = (found @ docs' # rest, w4)"
    using earlier one later by (simp add: search_loop_append)
  have "\<forall>question w0 retr w5.
       generate_multi_queries r question w0 = (Inr (before @ q # after), w) \<longrightarrow>
       build_metadata_filter question = Some f \<longrightarrow>
       retrieve fl r question w0 = (Inr retr, w5) \<longrightarrow>
       (\<exists>fused. reciprocal_rank_fusion fl (dumps r) (loads r) (found @ docs' # rest) RRF_K = Inr fused \<and>
          child_docs retr = take TOP_K fused)"
  proof (intro allI impI)
    fix question w0 retr w5
    assume expand: "generate_multi_queries r question w0 = (Inr (before @ q # after), w)"
      and built: "build_metadata_filter question = Some f"
      and "retrieve fl r question w0 = (Inr retr, w5)"
    with retrieve_child_docs [OF expand _ _ this(3), of "found @ docs' # rest" w4] loop
    show "\<exists>fused. reciprocal_rank_fusion fl (dumps r) (loads r) (found @ docs' # rest) RRF_K = Inr fused \<and>
          child_docs retr = take TOP_K fused" by simp
  qed
  with one loop show ?thesis by blast
qed


text \<open>
  The filter of two questions: one names its audience in ASCII, the other writes the
  \<open>k\<close> of \<open>stock broker\<close> as the Kelvin sign, which \<open>lower()\<close> makes a \<open>k\<close>.
\<close>

lemma kelvin_question_filter:
  "build_metadata_filter (ascii ''stoc'' @ [8490] @ ascii '' broker rules'') =
     Some (Where (Audience (ascii ''Stock Brokers'')))"
  by (simp add: build_metadata_filter_def audience_map_def any_in_def str_eval)

lemma fund_question_filter: "build_metadata_filter fund_question = Some fund_filter"
  by (simp add: build_metadata_filter_def audience_map_def any_in_def fund_question_def
      fund_filter_def str_eval)

lemma failing_expansion:
  "generate_multi_queries (stub_retriever failing_llm search) question world0 =
     (Inr [question], asked question)"
  by (simp add: generate_multi_queries_def stub_retriever_def invoke_def failing_llm_def
      world0_def asked_def)

lemma stub_retriever_sel:
  "r_llm (stub_retriever l search) = l"
  "vectorstore (stub_retriever l search) = search"
  "definitions_store (stub_retriever l search) = None"
  "parent_store (stub_retriever l search) = []"
  "dumps (stub_retriever l search) = stub_dumps"
  "loads (stub_retriever l search) = stub_loads"
  by (simp_all add: stub_retriever_def)

lemma no_parents: "get_parent_context (stub_retriever l search) [doc_a, doc_b, doc_c, doc_d, doc_e] = []"
  by (simp add: get_parent_context_def stub_retriever_sel meta_get_def stub_docs ascii_def)

lemma no_definitions: "get_definitions_context (stub_retriever l search) question w = ([], w)"
  by (simp add: get_definitions_context_def stub_retriever_sel)

theorem filtered_search_falls_back_witness:
  "generate_multi_queries (stub_retriever failing_llm one_or_five) fund_question world0 =
     (Inr [fund_question], asked fund_question) \<and>
   build_metadata_filter fund_question = Some fund_filter \<and>
   ext_run (vectorstore (stub_retriever failing_llm one_or_five) fund_question TOP_K (Some fund_filter))
     (asked fund_question) = (Inr [doc_a], asked fund_question) \<and>
   ext_run (vectorstore (stub_retriever failing_llm one_or_five) fund_question TOP_K None)
     (asked fund_question) = (Inr [doc_a, doc_b, doc_c, doc_d, doc_e], asked fund_question) \<and>
   search_loop (stub_retriever failing_llm one_or_five) (Some fund_filter) [fund_question]
     (asked fund_question) = ([[doc_a, doc_b, doc_c, doc_d, doc_e]], asked fund_question) \<and>
   (\<exists>retr w5. retrieve binary64 (stub_retriever failing_llm one_or_five) fund_question world0 = (Inr retr, w5) \<and>
      child_docs retr = [doc_a, doc_b, doc_c, doc_d, doc_e])"
proof -
  let ?r = "stub_retriever failing_llm one_or_five"
  let ?w = "asked fund_question"
  let ?five = "[doc_a, doc_b, doc_c, doc_d, doc_e]"
  have expand: "generate_multi_queries ?r fund_question world0 = (Inr ([] @ fund_question # []), ?w)"
    by (simp add: failing_expansion)
  have earlier: "search_loop ?r (Some fund_filter) [] ?w = ([], ?w)" by simp
  have filtered: "ext_run (vectorstore ?r fund_question TOP_K (Some fund_filter)) ?w = (Inr [doc_a], ?w)"
    by (simp add: ext_run_def stub_retriever_sel one_or_five_def asked_def)
  have few: "length [doc_a] < 2" by simp
  have unfiltered: "ext_run (vectorstore ?r fund_question TOP_K None) ?w = (Inr ?five, ?w)"
    by (simp add: ext_run_def stub_retriever_sel one_or_five_def asked_def)
  note inst = filtered_search_falls_back [where fl = binary64,
      OF earlier filtered few unfiltered earlier]
  from inst [THEN conjunct2, THEN conjunct1]
  have loop: "search_loop ?r (Some fund_filter) [fund_question] ?w = ([?five], ?w)"
    by simp
  have "retrieve binary64 ?r fund_question world0 =
      (Inr \<lparr>child_docs = ?five,
            child_context = py_join SEPARATOR (map format_child ?five),
            parent_context = [], definitions = [], queries_used = [fund_question],
            metadata_filter = Some fund_filter\<rparr>, ?w)"
    by (simp add: retrieve_def failing_expansion fund_question_filter loop stub_retriever_sel
        rrf_five TOP_K_def no_definitions no_parents del: search_loop.simps)
  then have "\<exists>retr w5. retrieve binary64 ?r fund_question world0 = (Inr retr, w5) \<and> child_docs retr = ?five"
    by simp
  with expand fund_question_filter filtered unfiltered loop show ?thesis by simp
qed

section \<open>The grounding check\<close>

subsection \<open>Keywords survive trimming and lower-casing\<close>

lemma sublist_dropWhile_keeps:
  assumes "sublist n r" and "n \<noteq> []" and "\<not> P (hd n)"
  shows "sublist n (dropWhile P r)"
proof -
  from assms(1) obtain ps ss where r: "r = ps @ n @ ss" by (auto simp: sublist_def)
  from assms(2,3) have keep: "dropWhile P (n @ ss) = n @ ss" by (cases n) auto
  show ?thesis
  proof (cases "\<forall>x \<in> set ps. P x")
    case True
    then have "dropWhile P r = n @ ss" using r keep by simp
    then show ?thesis by simp
  next
    case False
    then obtain x where "x \<in> set ps" "\<not> P x" by blast
    then have "dropWhile P (ps @ n @ ss) = dropWhile P ps @ n @ ss" by (rule dropWhile_append1)
    then have "dropWhile P r = dropWhile P ps @ n @ ss" using r by simp
    then show ?thesis by simp
  qed
qed

lemma contains_py_strip:
  assumes "contains n r" and "n \<noteq> []" and "\<not> is_space (hd n)" and "\<not> is_space (last n)"
  shows "contains n (py_strip r)"
proof -
  have a: "sublist n (dropWhile is_space r)"
    using assms(1-3) unfolding contains_def by (rule sublist_dropWhile_keeps)
  then have "sublist (rev n) (rev (dropWhile is_space r))" by simp
  then have "sublist (rev n) (dropWhile is_space (rev (dropWhile is_space r)))"
    using assms(2,4) by (intro sublist_dropWhile_keeps) (simp_all add: hd_rev)
  then have "sublist (rev (rev n)) (rev (dropWhile is_space (rev (dropWhile is_space r))))"
    by (simp only: sublist_rev)
  then show ?thesis by (simp add: contains_def py_strip_def)
qed

lemma contains_py_lower:
  assumes "contains n r" and "py_lower n = n"
  shows "contains n (py_lower r)"
proof -
  from assms(1) obtain ps ss where "r = ps @ n @ ss" by (auto simp: contains_def sublist_def)
  then have "py_lower r = py_lower ps @ py_lower n @ py_lower ss" by (simp add: py_lower_def)
  with assms(2) show ?thesis by (simp add: contains_def)
qed

lemma not_grounded_survives:
  "contains (ascii ''not_grounded'') result \<Longrightarrow>
   contains (ascii ''not_grounded'') (py_lower (py_strip result))"
  by (intro contains_py_lower contains_py_strip) (simp_all add: str_eval)

subsection \<open>The verdict and the confidence\<close>

lemma confidence_of_values:
  "confidence_of (ascii ''grounded'') = ascii ''high''"
  "confidence_of (ascii ''partial'') = ascii ''medium''"
  "confidence_of (ascii ''unknown'') = ascii ''medium''"
  "confidence_of (ascii ''not_grounded'') = ascii ''low''"
  by (simp_all add: confidence_of_def ascii_def)

lemma parse_grounding_cases:
  "parse_grounding result = ascii ''not_grounded'' \<or> parse_grounding result = ascii ''partial'' \<or>
   parse_grounding result = ascii ''grounded'' \<or> parse_grounding result = ascii ''unknown''"
  by (simp add: parse_grounding_def Let_def)

lemma verdict_names_differ:
  "ascii ''partial'' \<noteq> ascii ''not_grounded''"
  "ascii ''grounded'' \<noteq> ascii ''not_grounded''"
  "ascii ''unknown'' \<noteq> ascii ''not_grounded''"
  by (simp_all add: ascii_def)

lemma query_finish:
  assumes "retrieve fl (retriever ch) question w = (Inr retr, w1)"
    and "child_docs retr \<noteq> []"
    and "grade_and_retry fl ch question retr w1 = (Inr (relevant_docs, children, merged), w2)"
    and "generate_answer (llm ch) question merged w2 = (Inr generated, w3)"
    and "check_hallucination (llm ch) generated
           (child_context merged @ [10, 10] @ parent_context merged) w3 = (hall, w4)"
  shows "query fl ch question w = (Inr (finish hall generated relevant_docs children merged), w4)"
  using assms by (simp add: query_def Let_def)

text \<open>
  C6. \<open>check_hallucination\<close> returns \<open>unknown\<close> when the call of the model raises.
  Otherwise it tests the response, trimmed and lower-cased, for the three keywords in
  the order \<open>not_grounded\<close>, \<open>partial\<close>, \<open>grounded\<close>: the first keyword found is the
  verdict, and \<open>unknown\<close> when none is found; a response that contains \<open>not_grounded\<close>
  as it stands has the verdict \<open>not_grounded\<close>. When \<open>query\<close> reaches the grounding check with the
  generated answer \<open>generated\<close> and the verdict \<open>hall\<close>, its result reports \<open>hall\<close>, the
  confidence \<open>high\<close> for \<open>grounded\<close>, \<open>medium\<close> for \<open>partial\<close> and \<open>unknown\<close>, \<open>low\<close> for
  \<open>not_grounded\<close>, and its answer is \<open>generated\<close> followed by the caveat when the verdict
  is \<open>not_grounded\<close>, and \<open>generated\<close> unchanged otherwise.
\<close>

theorem grounding_verdict_and_confidence:
  fixes ch :: "'s chain" and fl :: "('f::linorder) float_ops" and l :: "'s llm"
  shows "(\<forall>e w'. invoke l (HallucinationPrompt (take 6000 ctx) generated) w = (Inl e, w') \<longrightarrow>
        check_hallucination l generated ctx w = (ascii ''unknown'', w')) \<and>
    (\<forall>result w' text. invoke l (HallucinationPrompt (take 6000 ctx) generated) w = (Inr result, w') \<and>
        text = py_lower (py_strip result) \<longrightarrow>
        (\<exists>verdict. check_hallucination l generated ctx w = (verdict, w') \<and>
          (contains (ascii ''not_grounded'') result \<longrightarrow> verdict = ascii ''not_grounded'') \<and>
          (contains (ascii ''not_grounded'') text \<longrightarrow> verdict = ascii ''not_grounded'') \<and>
          (\<not> contains (ascii ''not_grounded'') text \<and> contains (ascii ''partial'') text \<longrightarrow>
             verdict = ascii ''partial'') \<and>
          (\<not> contains (ascii ''not_grounded'') text \<and> \<not> contains (ascii ''partial'') text \<and>
             contains (ascii ''grounded'') text \<longrightarrow> verdict = ascii ''grounded'') \<and>
          (\<not> contains (ascii ''not_grounded'') text \<and> \<not> contains (ascii ''partial'') text \<and>
             \<not> contains (ascii ''grounded'') text \<longrightarrow> verdict = ascii ''unknown''))) \<and>
    (\<forall>retr w1 relevant_docs children merged w2 w3 hall w4.
        retrieve fl (retriever ch) question start = (Inr retr, w1) \<and> child_docs retr \<noteq> [] \<and>
        grade_and_retry fl ch question retr w1 = (Inr (relevant_docs, children, merged), w2) \<and>
        generate_answer (llm ch) question merged w2 = (Inr generated, w3) \<and>
        check_hallucination (llm ch) generated
          (child_context merged @ [10, 10] @ parent_context merged) w3 = (hall, w4) \<longrightarrow>
        (\<exists>res. query fl ch question start = (Inr res, w4) \<and> hallucination_check res = hall \<and>
          (hall = ascii ''grounded'' \<longrightarrow> confidence res = ascii ''high'') \<and>
          (hall = ascii ''partial'' \<longrightarrow> confidence res = ascii ''medium'') \<and>
          (hall = ascii ''unknown'' \<longrightarrow> confidence res = ascii ''medium'') \<and>
          (hall = ascii ''not_grounded'' \<longrightarrow>
             confidence res = ascii ''low'' \<and> answer res = generated @ CAVEAT) \<and>
          (hall \<noteq> ascii ''not_grounded'' \<longrightarrow> answer res = generated)))"
proof (intro conjI allI impI)
  fix e w'
  assume "invoke l (HallucinationPrompt (take 6000 ctx) generated) w = (Inl e, w')"
  then show "check_hallucination l generated ctx w = (ascii ''unknown'', w')"
    by (simp add: check_hallucination_def)
next
  fix result w' t
  assume a: "invoke l (HallucinationPrompt (take 6000 ctx) generated) w = (Inr result, w') \<and>
        t = py_lower (py_strip result)"
  then have c: "check_hallucination l generated ctx w = (parse_grounding result, w')"
    by (simp add: check_hallucination_def)
  from a have teq: "t = py_lower (py_strip result)" by simp
  show "\<exists>verdict. check_hallucination l generated ctx w = (verdict, w') \<and>
          (contains (ascii ''not_grounded'') result \<longrightarrow> verdict = ascii ''not_grounded'') \<and>
          (contains (ascii ''not_grounded'') t \<longrightarrow> verdict = ascii ''not_grounded'') \<and>
          (\<not> contains (ascii ''not_grounded'') t \<and> contains (ascii ''partial'') t \<longrightarrow>
             verdict = ascii ''partial'') \<and>
          (\<not> contains (ascii ''not_grounded'') t \<and> \<not> contains (ascii ''partial'') t \<and>
             contains (ascii ''grounded'') t \<longrightarrow> verdict = ascii ''grounded'') \<and>
          (\<not> contains (ascii ''not_grounded'') t \<and> \<not> contains (ascii ''partial'') t \<and>
             \<not> contains (ascii ''grounded'') t \<longrightarrow> verdict = ascii ''unknown'')"
    unfolding c teq using not_grounded_survives [of result]
    by (simp add: parse_grounding_def Let_def)
next
  fix retr w1 relevant_docs children merged w2 w3 hall w4
  assume a: "retrieve fl (retriever ch) question start = (Inr retr, w1) \<and> child_docs retr \<noteq> [] \<and>
        grade_and_retry fl ch question retr w1 = (Inr (relevant_docs, children, merged), w2) \<and>
        generate_answer (llm ch) question merged w2 = (Inr generated, w3) \<and>
        check_hallucination (llm ch) generated
          (child_context merged @ [10, 10] @ parent_context merged) w3 = (hall, w4)"
  then have q: "query fl ch question start = (Inr (finish hall generated relevant_docs children merged), w4)"
    using query_finish [of fl ch question start retr w1 relevant_docs children merged w2 generated w3 hall w4]
    by blast
  show "\<exists>res. query fl ch question start = (Inr res, w4) \<and> hallucination_check res = hall \<and>
          (hall = ascii ''grounded'' \<longrightarrow> confidence res = ascii ''high'') \<and>
          (hall = ascii ''partial'' \<longrightarrow> confidence res = ascii ''medium'') \<and>
          (hall = ascii ''unknown'' \<longrightarrow> confidence res = ascii ''medium'') \<and>
          (hall = ascii ''not_grounded'' \<longrightarrow>
             confidence res = ascii ''low'' \<and> answer res = generated @ CAVEAT) \<and>
          (hall \<noteq> ascii ''not_grounded'' \<longrightarrow> answer res = generated)"
    unfolding q by (simp add: finish_def confidence_of_values)
qed


lemma scripted_expansion:
  "generate_multi_queries (stub_retriever (scripted_llm v) search) question world0 =
     (Inr [question], asked question)"
  by (simp add: generate_multi_queries_def stub_retriever_sel invoke_def scripted_llm_def
      world0_def asked_def)

lemma fees_no_filter: "build_metadata_filter (ascii ''fees'') = None"
  by (simp add: build_metadata_filter_def audience_map_def any_in_def str_eval)

lemma two_found_loop:
  "search_loop (stub_retriever l two_found) None [q] w = ([[doc_a, doc_b]], w)"
  by (simp add: search_query_def ext_run_def stub_retriever_sel two_found_def)

lemma no_parents_two: "get_parent_context (stub_retriever l search) [doc_a, doc_b] = []"
  by (simp add: get_parent_context_def stub_retriever_sel meta_get_def stub_docs ascii_def)

lemma retrieve_two:
  "retrieve binary64 (stub_retriever (scripted_llm v) two_found) (ascii ''fees'') world0 =
     (Inr \<lparr>child_docs = [doc_a, doc_b],
           child_context = py_join SEPARATOR (map format_child [doc_a, doc_b]),
           parent_context = [], definitions = [], queries_used = [ascii ''fees''],
           metadata_filter = None\<rparr>, asked (ascii ''fees''))"
  by (simp add: retrieve_def scripted_expansion fees_no_filter two_found_loop stub_retriever_sel
      rrf_two TOP_K_def no_definitions no_parents_two del: search_loop.simps)

lemma scripted_grading:
  "\<exists>w'. grade_loop (scripted_llm v) question [doc_a, doc_b] w = ([doc_a, doc_b], w')"
  by (simp add: invoke_def scripted_llm_def says_relevant_examples)

theorem grounding_verdict_and_confidence_witness:
  "(\<exists>w'. invoke (scripted_llm (ascii ''not_grounded'')) (HallucinationPrompt (take 6000 []) []) world0 =
      (Inr (ascii ''not_grounded''), w') \<and>
      check_hallucination (scripted_llm (ascii ''not_grounded'')) [] [] world0 = (ascii ''not_grounded'', w')) \<and>
   contains (ascii ''not_grounded'') (py_lower (py_strip (ascii ''not_grounded''))) \<and>
   contains (ascii ''grounded'') (py_lower (py_strip (ascii ''not_grounded''))) \<and>
   (\<exists>res w4. query binary64 (stub_chain (scripted_llm (ascii ''not_grounded'')) two_found) (ascii ''fees'') world0 =
        (Inr res, w4) \<and>
      hallucination_check res = ascii ''not_grounded'' \<and> confidence res = ascii ''low'' \<and>
      answer res = ascii ''Mutual funds shall disclose.'' @ CAVEAT)"
proof -
  let ?l = "scripted_llm (ascii ''not_grounded'')"
  let ?ch = "stub_chain ?l two_found"
  let ?q = "ascii ''fees''"
  let ?retr = "\<lparr>child_docs = [doc_a, doc_b],
           child_context = py_join SEPARATOR (map format_child [doc_a, doc_b]),
           parent_context = [], definitions = [], queries_used = [?q],
           metadata_filter = None\<rparr>"
  let ?gen = "ascii ''Mutual funds shall disclose.''"
  note inst = grounding_verdict_and_confidence [where l = ?l and ch = ?ch and fl = binary64 and
      generated = ?gen and question = ?q and start = world0 and ctx = "[]" and w = world0]
  have sel: "llm ?ch = ?l" "retriever ?ch = stub_retriever ?l two_found"
    by (simp_all add: stub_chain_def)
  have c1: "contains (ascii ''not_grounded'') (py_lower (py_strip (ascii ''not_grounded'')))"
    and c2: "contains (ascii ''grounded'') (py_lower (py_strip (ascii ''not_grounded'')))"
    by (simp_all add: str_eval)
  have s1: "retrieve binary64 (retriever ?ch) ?q world0 = (Inr ?retr, asked ?q)"
    unfolding sel by (rule retrieve_two)
  have ne: "child_docs ?retr \<noteq> []" by simp
  from scripted_grading obtain w2 where g: "grade_loop ?l ?q [doc_a, doc_b] (asked ?q) = ([doc_a, doc_b], w2)"
    by blast
  have s2: "grade_and_retry binary64 ?ch ?q ?retr (asked ?q) = (Inr ([doc_a, doc_b], [doc_a, doc_b], ?retr), w2)"
    unfolding grade_and_retry_def sel using g by simp
  obtain w3 where s3: "generate_answer (llm ?ch) ?q ?retr w2 = (Inr ?gen, w3)"
    unfolding sel by (simp add: generate_answer_def invoke_def scripted_llm_def)
  obtain w4 where s4: "check_hallucination (llm ?ch) ?gen
      (child_context ?retr @ [10, 10] @ parent_context ?retr) w3 = (ascii ''not_grounded'', w4)"
    unfolding sel
    by (simp add: check_hallucination_def invoke_def scripted_llm_def parse_grounding_def c1 [unfolded Let_def])
  note third = inst [THEN conjunct2, THEN conjunct2, rule_format]
  from third s1 ne s2 s3 s4
  have "\<exists>res. query binary64 ?ch ?q world0 = (Inr res, w4) \<and>
      hallucination_check res = ascii ''not_grounded'' \<and> confidence res = ascii ''low'' \<and>
      answer res = ?gen @ CAVEAT"
    by blast
  then have q: "\<exists>res w4. query binary64 ?ch ?q world0 = (Inr res, w4) \<and>
      hallucination_check res = ascii ''not_grounded'' \<and> confidence res = ascii ''low'' \<and>
      answer res = ?gen @ CAVEAT"
    by blast
  obtain wb where call0: "invoke ?l (HallucinationPrompt (take 6000 []) []) world0 =
      (Inr (ascii ''not_grounded''), wb)"
    by (simp add: invoke_def scripted_llm_def)
  then have "check_hallucination ?l [] [] world0 = (ascii ''not_grounded'', wb)"
    by (simp add: check_hallucination_def parse_grounding_def c1 [unfolded Let_def])
  with call0 c1 c2 q show ?thesis by blast
qed

section \<open>Properties of the versioning\<close>

subsection \<open>The groups\<close>

lemma group_circulars_filter:
  "foldl (\<lambda>groups c. group_append groups (s c) c) [] cs =
     map (\<lambda>key. (key, filter (\<lambda>b. s b = key) cs)) (first_seen (map s cs))"
proof (induction cs rule: rev_induct)
  case Nil
  show ?case by (simp add: first_seen_def)
next
  case (snoc c cs)
  let ?groups = "map (\<lambda>key. (key, filter (\<lambda>b. s b = key) cs)) (first_seen (map s cs))"
  have keys: "map fst ?groups = first_seen (map s cs)" by (simp add: comp_def)
  show ?case
  proof (cases "s c \<in> set (map s cs)")
    case True
    have "group_append ?groups (s c) c =
        map (\<lambda>(k, g). if k = s c then (k, g @ [c]) else (k, g)) ?groups"
      unfolding group_append_def keys using True by simp
    also have "\<dots> = map (\<lambda>key. (key, filter (\<lambda>b. s b = key) (cs @ [c]))) (first_seen (map s cs))"
      by auto
    finally show ?thesis using snoc True by (simp add: first_seen_snoc)
  next
    case False
    have none: "filter (\<lambda>b. s b = s c) cs = []"
      using False by (auto simp: filter_empty_conv image_iff)
    have "group_append ?groups (s c) c = ?groups @ [(s c, [c])]"
      unfolding group_append_def keys using False by simp
    also have "\<dots> = map (\<lambda>key. (key, filter (\<lambda>b. s b = key) (cs @ [c]))) (first_seen (map s cs) @ [s c])"
    proof -
      have "\<And>key. key \<in> set (map s cs) \<Longrightarrow> filter (\<lambda>b. s b = key) (cs @ [c]) = filter (\<lambda>b. s b = key) cs"
        using False by auto
      then show ?thesis using none by simp
    qed
    finally show ?thesis using snoc False by (simp add: first_seen_snoc)
  qed
qed

subsection \<open>Marking one group\<close>

lemma mark_keeps_keys [simp]:
  "subject_key (mark grp i h c) = subject_key c"
  "date_key (mark grp i h c) = date_key c"
  "filename (mark grp i h c) = filename c"
  by (simp_all add: mark_def subject_key_def date_key_def Let_def)

lemma mark_sets [simp]:
  "status (mark grp i h c) = Some (if i = 0 then ACTIVE else SUPERSEDED)"
  "is_latest (mark grp i h c) = Some (i = 0)"
  by (simp_all add: mark_def Let_def)

lemma mark_versions_other: "a \<notin> set cs \<Longrightarrow> mark_versions grp i cs h a = h a"
  by (induction cs arbitrary: i h) auto

lemma mark_versions_keys:
  "subject_key (mark_versions grp i cs h a) = subject_key (h a) \<and>
   date_key (mark_versions grp i cs h a) = date_key (h a)"
  by (induction cs arbitrary: i h) auto

lemma mark_versions_marked:
  "distinct cs \<Longrightarrow> j < length cs \<Longrightarrow>
   status (mark_versions grp i cs h (cs ! j)) = Some (if i + j = 0 then ACTIVE else SUPERSEDED) \<and>
   is_latest (mark_versions grp i cs h (cs ! j)) = Some (i + j = 0)"
proof (induction cs arbitrary: i h j)
  case Nil
  then show ?case by simp
next
  case (Cons c cs)
  show ?case
  proof (cases j)
    case 0
    from Cons.prems have "c \<notin> set cs" by simp
    then show ?thesis using 0 by (simp add: mark_versions_other)
  next
    case (Suc j')
    with Cons.prems have "distinct cs" "j' < length cs" by simp_all
    from Cons.IH [OF this, of "Suc i"] Suc show ?thesis by simp
  qed
qed

lemma process_group_other: "a \<notin> set grp \<Longrightarrow> process_group h grp a = h a"
  by (simp add: process_group_def Let_def mark_versions_other)

lemma process_group_keys:
  "subject_key (process_group h grp a) = subject_key (h a)"
  "date_key (process_group h grp a) = date_key (h a)"
  by (simp_all add: process_group_def Let_def mark_versions_keys)

lemma process_group_marked:
  assumes "distinct grp" and "a \<in> set grp"
  shows "status (process_group h grp a) =
      Some (if a = hd (py_sorted_reverse (\<lambda>c. date_key (h c)) grp) then ACTIVE else SUPERSEDED) \<and>
    is_latest (process_group h grp a) = Some (a = hd (py_sorted_reverse (\<lambda>c. date_key (h c)) grp))"
proof -
  let ?s = "py_sorted_reverse (\<lambda>c. date_key (h c)) grp"
  have d: "distinct ?s" using assms(1) by simp
  from assms(2) have "a \<in> set ?s" by simp
  then obtain j where j: "j < length ?s" "?s ! j = a" by (metis in_set_conv_nth)
  have "a = hd ?s \<longleftrightarrow> j = 0"
  proof
    assume "a = hd ?s"
    with j have "?s ! j = ?s ! 0" by (cases ?s) auto
    with d j show "j = 0" by (metis length_pos_if_in_set nth_eq_iff_index_eq nth_mem)
  next
    assume "j = 0"
    with j show "a = hd ?s" by (cases ?s) auto
  qed
  with mark_versions_marked [OF d j(1), of ?s 0 h] j(2) show ?thesis
    by (simp add: process_group_def Let_def)
qed


subsection \<open>Which circular comes first\<close>

lemma py_sorted_reverse_hd:
  assumes "xs \<noteq> []"
  shows "\<exists>before after. xs = before @ hd (py_sorted_reverse f xs) # after \<and>
           (\<forall>b \<in> set xs. f b \<le> f (hd (py_sorted_reverse f xs))) \<and>
           (\<forall>b \<in> set before. f b < f (hd (py_sorted_reverse f xs)))"
proof -
  let ?s = "py_sorted_reverse f xs"
  from assms have "set ?s \<noteq> {}" by simp
  then obtain w rest where s: "?s = w # rest" by (cases ?s) auto
  have "sorted_wrt (\<lambda>a b. f b \<le> f a) (w # rest)"
    using py_sorted_reverse_descending [of f xs] s by simp
  then have "\<forall>b \<in> set rest. f b \<le> f w" by simp
  then have "\<forall>b \<in> set ?s. f b \<le> f w" using s by simp
  then have top: "\<forall>b \<in> set xs. f b \<le> f w" by simp
  have "filter (\<lambda>x. f x = f w) xs = filter (\<lambda>x. f x = f w) ?s"
    by (simp add: py_sorted_reverse_stable)
  also have "\<dots> = w # filter (\<lambda>x. f x = f w) rest" using s by simp
  finally obtain before after where
    xs: "xs = before @ w # after" and b: "\<forall>u \<in> set before. f u \<noteq> f w"
    by (auto simp: filter_eq_Cons_iff)
  have "\<forall>u \<in> set before. f u < f w"
  proof
    fix u assume u: "u \<in> set before"
    with xs top have "f u \<le> f w" by simp
    with b u show "f u < f w" by (simp add: order_less_le)
  qed
  with xs top s show ?thesis by auto
qed

subsection \<open>All groups\<close>

lemma fold_groups_other:
  "\<forall>g \<in> set gs. a \<notin> set g \<Longrightarrow> foldl process_group h gs a = h a"
  by (induction gs arbitrary: h) (simp_all add: process_group_other)

lemma fold_groups_keys:
  "subject_key (foldl process_group h gs a) = subject_key (h a) \<and>
   date_key (foldl process_group h gs a) = date_key (h a)"
  by (induction gs arbitrary: h) (simp_all add: process_group_keys)

lemma fold_groups_marked:
  assumes "distinct cs"
  shows "distinct ks \<Longrightarrow> \<forall>b. subject_key (h b) = s b \<and> date_key (h b) = d b \<Longrightarrow>
    a \<in> set cs \<Longrightarrow> s a \<in> set ks \<Longrightarrow>
    status (foldl process_group h (map (\<lambda>key. filter (\<lambda>b. s b = key) cs) ks) a) =
      Some (if a = hd (py_sorted_reverse d (filter (\<lambda>b. s b = s a) cs)) then ACTIVE else SUPERSEDED) \<and>
    is_latest (foldl process_group h (map (\<lambda>key. filter (\<lambda>b. s b = key) cs) ks) a) =
      Some (a = hd (py_sorted_reverse d (filter (\<lambda>b. s b = s a) cs)))"
proof (induction ks arbitrary: h)
  case Nil
  then show ?case by simp
next
  case (Cons k ks)
  let ?g = "filter (\<lambda>b. s b = k) cs"
  let ?h1 = "process_group h ?g"
  have dk: "(\<lambda>c. date_key (h c)) = d" using Cons.prems(2) by auto
  have keys1: "\<forall>b. subject_key (?h1 b) = s b \<and> date_key (?h1 b) = d b"
    using Cons.prems(2) by (simp add: process_group_keys)
  show ?case
  proof (cases "s a = k")
    case True
    have dg: "distinct ?g" using assms by simp
    have ag: "a \<in> set ?g" using Cons.prems(3) True by simp
    have later: "\<forall>g \<in> set (map (\<lambda>key. filter (\<lambda>b. s b = key) cs) ks). a \<notin> set g"
      using Cons.prems(1) True by auto
    have "foldl process_group h (map (\<lambda>key. filter (\<lambda>b. s b = key) cs) (k # ks)) a = ?h1 a"
      using fold_groups_other [OF later, of ?h1] by simp
    with process_group_marked [OF dg ag, of h] True show ?thesis
      by (simp add: dk)
  next
    case False
    with Cons.prems have "distinct ks" "a \<in> set cs" "s a \<in> set ks" by auto
    from Cons.IH [OF this(1) keys1 this(2,3)] show ?thesis by simp
  qed
qed


lemma status_names_differ: "SUPERSEDED \<noteq> ACTIVE"
  by (simp add: ACTIVE_def SUPERSEDED_def ascii_def)

text \<open>
  C5. Let \<open>all_circulars\<close> hold every circular object once, let \<open>c\<close> be one of them and
  let \<open>grp\<close> be the circulars of the list with the normalized subject of \<open>c\<close>, in input
  order. After \<open>determine_latest_versions\<close> there is one circular \<open>w\<close> of the group
  with status \<open>ACTIVE\<close> and \<open>is_latest = True\<close>: no circular of the group has a later
  parsed date, and every circular before \<open>w\<close> in the input has an earlier one (among
  equal dates the first in input order wins). Every other circular of the group has
  status \<open>SUPERSEDED\<close> and \<open>is_latest = False\<close>, so exactly one is active and exactly one
  is latest. Subjects and dates are not changed.
\<close>

theorem one_active_version_per_subject:
  fixes h :: heap and all_circulars c
  defines "h' \<equiv> determine_latest_versions h all_circulars"
    and "grp \<equiv> filter (\<lambda>b. subject_key (h b) = subject_key (h c)) all_circulars"
  assumes "distinct all_circulars" and "c \<in> set all_circulars"
  shows "\<exists>before w after. grp = before @ w # after \<and>
    (\<forall>b \<in> set grp. date_key (h b) \<le> date_key (h w)) \<and>
    (\<forall>b \<in> set before. date_key (h b) < date_key (h w)) \<and>
    status (h' w) = Some ACTIVE \<and> is_latest (h' w) = Some True \<and>
    (\<forall>b \<in> set before \<union> set after. status (h' b) = Some SUPERSEDED \<and> is_latest (h' b) = Some False) \<and>
    length (filter (\<lambda>b. status (h' b) = Some ACTIVE) grp) = 1 \<and>
    length (filter (\<lambda>b. is_latest (h' b) = Some True) grp) = 1 \<and>
    (\<forall>b. subject_key (h' b) = subject_key (h b) \<and> date_key (h' b) = date_key (h b))"
proof -
  let ?s = "\<lambda>b. subject_key (h b)" and ?d = "\<lambda>b. date_key (h b)"
  let ?ks = "first_seen (map ?s all_circulars)"
  let ?w = "hd (py_sorted_reverse ?d grp)"
  have h': "h' = foldl process_group h (map (\<lambda>key. filter (\<lambda>b. ?s b = key) all_circulars) ?ks)"
    unfolding h'_def determine_latest_versions_def group_circulars_def
    by (simp add: group_circulars_filter [of ?s] comp_def)
  have ne: "grp \<noteq> []" using assms(4) by (auto simp: grp_def filter_empty_conv)
  have dg: "distinct grp" using assms(3) by (simp add: grp_def)
  have marked: "\<And>a. a \<in> set grp \<Longrightarrow>
      status (h' a) = Some (if a = ?w then ACTIVE else SUPERSEDED) \<and> is_latest (h' a) = Some (a = ?w)"
  proof -
    fix a assume "a \<in> set grp"
    then have a: "a \<in> set all_circulars" "?s a = ?s c" by (simp_all add: grp_def)
    from a(1) have k: "?s a \<in> set ?ks" by simp
    have same: "filter (\<lambda>b. ?s b = ?s a) all_circulars = grp" using a(2) by (simp add: grp_def)
    from fold_groups_marked [OF assms(3), of ?ks h ?s ?d a] a(1) k
    show "status (h' a) = Some (if a = ?w then ACTIVE else SUPERSEDED) \<and> is_latest (h' a) = Some (a = ?w)"
      unfolding h' same by simp
  qed
  from py_sorted_reverse_hd [OF ne, of ?d] obtain before after where
    split: "grp = before @ ?w # after"
    and top: "\<forall>b \<in> set grp. ?d b \<le> ?d ?w"
    and first: "\<forall>b \<in> set before. ?d b < ?d ?w"
    by blast
  from dg split have out: "?w \<notin> set before" "?w \<notin> set after"
    by (metis distinct_append distinct.simps(2) disjoint_iff list.set_intros(1))+
  have w_in: "?w \<in> set grp" using split by (metis in_set_conv_decomp)
  have act: "status (h' ?w) = Some ACTIVE \<and> is_latest (h' ?w) = Some True"
    using marked [OF w_in] by simp
  have others: "\<forall>b \<in> set before \<union> set after. status (h' b) = Some SUPERSEDED \<and> is_latest (h' b) = Some False"
  proof
    fix b assume b: "b \<in> set before \<union> set after"
    then have "b \<in> set grp" using split by (metis Un_iff in_set_conv_decomp set_append list.set_intros(2))
    moreover from b out have "b \<noteq> ?w" by auto
    ultimately show "status (h' b) = Some SUPERSEDED \<and> is_latest (h' b) = Some False"
      using marked [of b] by simp
  qed
  have none: "\<And>xs. set xs \<subseteq> set before \<union> set after \<Longrightarrow>
      filter (\<lambda>b. status (h' b) = Some ACTIVE) xs = [] \<and> filter (\<lambda>b. is_latest (h' b) = Some True) xs = []"
    using others status_names_differ by (auto simp: filter_empty_conv)
  have count: "length (filter (\<lambda>b. status (h' b) = Some ACTIVE) (before @ ?w # after)) = 1 \<and>
      length (filter (\<lambda>b. is_latest (h' b) = Some True) (before @ ?w # after)) = 1"
    using none [of before] none [of after] act by simp
  have keys: "\<forall>b. subject_key (h' b) = subject_key (h b) \<and> date_key (h' b) = date_key (h b)"
    unfolding h' by (simp add: fold_groups_keys)
  from split top first act others count keys show ?thesis
    by (metis (no_types, lifting))
qed


lemma three_circulars_keys:
  "subject_key (three_circulars 0) = ascii ''mutual funds''"
  "subject_key (three_circulars (Suc 0)) = ascii ''mutual funds''"
  "subject_key (three_circulars 2) = ascii ''stock brokers''"
  "date_key (three_circulars 0) = ascii ''2022-01-01T00:00:00''"
  "date_key (three_circulars (Suc 0)) = ascii ''2024-06-27T00:00:00''"
  "date_key (three_circulars 2) = ascii ''2023-05-17T00:00:00''"
  by (simp_all add: three_circulars_def new_circular_def subject_key_def date_key_def)

theorem one_active_version_per_subject_witness:
  "distinct [0, 1, 2 :: nat] \<and> (0 :: nat) \<in> set [0, 1, 2] \<and>
   filter (\<lambda>b. subject_key (three_circulars b) = subject_key (three_circulars 0)) [0, 1, 2] = [0, 1] \<and>
   date_key (three_circulars 0) < date_key (three_circulars 1) \<and>
   status (determine_latest_versions three_circulars [0, 1, 2] 1) = Some ACTIVE \<and>
   is_latest (determine_latest_versions three_circulars [0, 1, 2] 1) = Some True \<and>
   status (determine_latest_versions three_circulars [0, 1, 2] 0) = Some SUPERSEDED \<and>
   is_latest (determine_latest_versions three_circulars [0, 1, 2] 0) = Some False"
proof -
  let ?h' = "determine_latest_versions three_circulars [0, 1, 2]"
  have d: "distinct [0, 1, 2 :: nat]" and m: "(0 :: nat) \<in> set [0, 1, 2]" by simp_all
  have g: "filter (\<lambda>b. subject_key (three_circulars b) = subject_key (three_circulars 0)) [0, 1, 2] = [0, 1]"
    by (simp add: three_circulars_keys ascii_def)
  have lt: "date_key (three_circulars 0) < date_key (three_circulars 1)"
    by (simp add: three_circulars_keys ascii_def)
  from one_active_version_per_subject [OF d m, of three_circulars]
  obtain before w after where
    split: "[0, 1] = before @ w # after"
    and top: "\<forall>b \<in> set [0, 1 :: nat]. date_key (three_circulars b) \<le> date_key (three_circulars w)"
    and act: "status (?h' w) = Some ACTIVE" "is_latest (?h' w) = Some True"
    and others: "\<forall>b \<in> set before \<union> set after. status (?h' b) = Some SUPERSEDED \<and> is_latest (?h' b) = Some False"
    unfolding g by blast
  from split have "w = 0 \<or> w = 1"
    by (metis in_set_conv_decomp insert_iff list.simps(15) empty_iff empty_set)
  moreover have "w \<noteq> 0"
  proof
    assume "w = 0"
    with top have "date_key (three_circulars 1) \<le> date_key (three_circulars 0)" by simp
    with lt show False by simp
  qed
  ultimately have w: "w = 1" by simp
  with split have "before = [0]" by (auto simp: Cons_eq_append_conv)
  with others have "status (?h' 0) = Some SUPERSEDED \<and> is_latest (?h' 0) = Some False" by simp
  with d m g lt act w show ?thesis by simp
qed

section \<open>Properties of the chunking\<close>

lemma py_strip_empty_iff: "py_strip s = [] \<longleftrightarrow> (\<forall>c \<in> set s. is_space c)"
proof
  assume "py_strip s = []"
  then have "dropWhile is_space (rev (dropWhile is_space s)) = []" by (simp add: py_strip_def)
  then have "\<forall>c \<in> set (dropWhile is_space s). is_space c" by (simp add: dropWhile_eq_Nil_conv)
  then have "dropWhile is_space s = []"
    by (metis hd_dropWhile list.set_sel(1))
  then show "\<forall>c \<in> set s. is_space c" by (simp add: dropWhile_eq_Nil_conv)
next
  assume "\<forall>c \<in> set s. is_space c"
  then have e: "dropWhile is_space s = []" by (simp add: dropWhile_eq_Nil_conv)
  show "py_strip s = []" unfolding py_strip_def e by simp
qed

lemma meta_base_no_parent_id: "ascii ''parent_id'' \<notin> set (map fst (meta_base env d))"
  by (simp add: meta_base_def ascii_def)

lemma children_loop_props:
  assumes "ascii ''parent_id'' \<notin> set (map fst base)"
  shows "children_loop env base parent_id section page_range child_texts s = (kids, s') \<Longrightarrow>
    map chunk_text kids = child_texts \<and>
    (\<forall>c \<in> set kids. map_of (chunk_metadata c) (ascii ''parent_id'') = Some (MStr parent_id))"
proof (induction child_texts arbitrary: s kids s')
  case Nil
  then show ?case by simp
next
  case (Cons t ts)
  obtain child_id s1 where u: "uuid4 env s = (child_id, s1)" by (cases "uuid4 env s")
  obtain rest s2 where r: "children_loop env base parent_id section page_range ts s1 = (rest, s2)"
    by (cases "children_loop env base parent_id section page_range ts s1")
  have none: "map_of base (ascii ''parent_id'') = None"
    using assms by (simp add: map_of_eq_None_iff)
  let ?child = "\<lparr>chunk_id = child_id, chunk_text = t,
      chunk_metadata = base @
        [(ascii ''child_id'', MStr child_id),
         (ascii ''parent_id'', MStr parent_id),
         (ascii ''section'', MStr section),
         (ascii ''pages'', MStr page_range),
         (ascii ''chunk_type'', MStr (ascii ''child'')),
         (ascii ''has_table'', MBool (contains (ascii ''|'') t \<and> contains (ascii ''---'') t))]\<rparr>"
  have k: "kids = ?child # rest"
    using Cons.prems u r by (simp add: Let_def)
  have ct: "chunk_text ?child = t" by simp
  have cm: "map_of (chunk_metadata ?child) (ascii ''parent_id'') = Some (MStr parent_id)"
    using none by (simp add: map_add_def ascii_def)
  from Cons.IH [OF r] k ct cm show ?case by simp
qed

lemma parents_loop_props:
  assumes "ascii ''parent_id'' \<notin> set (map fst base)"
  shows "parents_loop env base parent_texts s = ((parents, children), s') \<Longrightarrow>
    map chunk_text parents = parent_texts \<and>
    (\<forall>c \<in> set children. \<exists>p \<in> set parents.
       map_of (chunk_metadata c) (ascii ''parent_id'') = Some (MStr (chunk_id p)) \<and>
       chunk_text c \<in> set (child_split env (chunk_text p)))"
proof (induction parent_texts arbitrary: s parents children s')
  case Nil
  then show ?case by simp
next
  case (Cons t ts)
  obtain parent_id s1 where u: "uuid4 env s = (parent_id, s1)" by (cases "uuid4 env s")
  let ?section = "detect_section_header env t"
  let ?pages = "page_range_of (page_numbers env t)"
  obtain kids s2 where k: "children_loop env base parent_id ?section ?pages (child_split env t) s1 = (kids, s2)"
    by (cases "children_loop env base parent_id ?section ?pages (child_split env t) s1")
  obtain ps cs s3 where r: "parents_loop env base ts s2 = ((ps, cs), s3)"
    by (cases "parents_loop env base ts s2") auto
  from Cons.prems u k r obtain parent where
    p: "parents = parent # ps" and c: "children = kids @ cs"
    and pt: "chunk_text parent = t" and pi: "chunk_id parent = parent_id"
    by (auto simp: Let_def)
  note kp = children_loop_props [OF assms k]
  note ih = Cons.IH [OF r]
  have "\<forall>c \<in> set children. \<exists>p \<in> set parents.
       map_of (chunk_metadata c) (ascii ''parent_id'') = Some (MStr (chunk_id p)) \<and>
       chunk_text c \<in> set (child_split env (chunk_text p))"
  proof
    fix x assume "x \<in> set children"
    with c have "x \<in> set kids \<or> x \<in> set cs" by simp
    then show "\<exists>p \<in> set parents.
       map_of (chunk_metadata x) (ascii ''parent_id'') = Some (MStr (chunk_id p)) \<and>
       chunk_text x \<in> set (child_split env (chunk_text p))"
    proof
      assume x: "x \<in> set kids"
      with kp have "map_of (chunk_metadata x) (ascii ''parent_id'') = Some (MStr parent_id)" by blast
      moreover from x kp have "chunk_text x \<in> set (child_split env t)"
        by (metis image_eqI list.set_map)
      ultimately show ?thesis using p pt pi by auto
    next
      assume "x \<in> set cs"
      with ih obtain q where "q \<in> set ps"
        "map_of (chunk_metadata x) (ascii ''parent_id'') = Some (MStr (chunk_id q))"
        "chunk_text x \<in> set (child_split env (chunk_text q))" by blast
      then show ?thesis using p by auto
    qed
  qed
  with ih p pt show ?case by simp
qed

text \<open>
  C10. In the pair \<open>(parents, children)\<close> that \<open>create_parent_child_chunks\<close> returns for
  a document, every child carries in its metadata the \<open>parent_id\<close> of a parent of the
  returned list, and the child's text is one of the pieces the child splitter cut from
  that parent's text. A document whose full text is empty or consists of whitespace
  only yields no parent and no child.
\<close>

theorem children_point_to_their_parent:
  fixes env :: "'s chunk_env"
  assumes "create_parent_child_chunks env d s = ((parents, children), s')"
  shows "(\<forall>c \<in> set children. \<exists>p \<in> set parents.
       map_of (chunk_metadata c) (ascii ''parent_id'') = Some (MStr (chunk_id p)) \<and>
       chunk_text c \<in> set (child_split env (chunk_text p))) \<and>
    ((\<forall>x \<in> set (full_text d). is_space x) \<longrightarrow> parents = [] \<and> children = [])"
proof (cases "py_strip (full_text d) = []")
  case True
  with assms show ?thesis by (simp add: create_parent_child_chunks_def)
next
  case False
  then have "\<not> (\<forall>x \<in> set (full_text d). is_space x)" by (simp add: py_strip_empty_iff)
  moreover from assms False
  have "parents_loop env (meta_base env d) (parent_split env (full_text d)) s = ((parents, children), s')"
    by (simp add: create_parent_child_chunks_def)
  note parents_loop_props [OF meta_base_no_parent_id this]
  ultimately show ?thesis by blast
qed

text \<open>
  C8. The splitter is a library outside the repository; suppose every piece it returns
  is a contiguous substring of the text it was given (pieces may overlap one another).
  Then for every document, every child chunk that \<open>create_parent_child_chunks\<close>
  produces has an owning parent in the returned list (the parent whose id is the
  child's \<open>parent_id\<close>) whose text contains the child's text as a contiguous block.
\<close>

theorem child_text_within_parent:
  fixes env :: "'s chunk_env"
  assumes splitter: "\<forall>chunk_size overlap seps t. \<forall>piece \<in> set (split_text env chunk_size overlap seps t). contains piece t"
    and "create_parent_child_chunks env d s = ((parents, children), s')"
  shows "\<forall>c \<in> set children. \<exists>p \<in> set parents.
       map_of (chunk_metadata c) (ascii ''parent_id'') = Some (MStr (chunk_id p)) \<and>
       contains (chunk_text c) (chunk_text p)"
proof
  fix c assume c: "c \<in> set children"
  have "\<exists>p \<in> set parents.
       map_of (chunk_metadata c) (ascii ''parent_id'') = Some (MStr (chunk_id p)) \<and>
       chunk_text c \<in> set (child_split env (chunk_text p))"
  proof (cases "py_strip (full_text d) = []")
    case True
    with assms(2) c show ?thesis by (simp add: create_parent_child_chunks_def)
  next
    case False
    with assms(2)
    have "parents_loop env (meta_base env d) (parent_split env (full_text d)) s = ((parents, children), s')"
      by (simp add: create_parent_child_chunks_def)
    from parents_loop_props [OF meta_base_no_parent_id this] c show ?thesis by blast
  qed
  then obtain p where p: "p \<in> set parents"
    "map_of (chunk_metadata c) (ascii ''parent_id'') = Some (MStr (chunk_id p))"
    "chunk_text c \<in> set (child_split env (chunk_text p))" by blast
  from p(3) splitter have "contains (chunk_text c) (chunk_text p)"
    unfolding child_split_def by blast
  with p show "\<exists>p \<in> set parents.
       map_of (chunk_metadata c) (ascii ''parent_id'') = Some (MStr (chunk_id p)) \<and>
       contains (chunk_text c) (chunk_text p)" by blast
qed


lemma halves_split_contains:
  "\<forall>chunk_size overlap seps t. \<forall>piece \<in> set (split_text stub_chunk_env chunk_size overlap seps t). contains piece t"
  by (simp add: stub_chunk_env_def halves_split_def contains_def)

lemma short_doc_chunks:
  "\<exists>parents children.
     create_parent_child_chunks stub_chunk_env short_doc 0 = ((parents, children), 5) \<and>
     map chunk_id parents = [ascii ''id-0'', ascii ''id-2''] \<and>
     map chunk_text parents = [ascii ''Funds di'', ascii ''disclose.''] \<and>
     map chunk_text children = [ascii ''Funds di'', ascii ''discl'', ascii ''close.''] \<and>
     map (\<lambda>c. map_of (chunk_metadata c) (ascii ''parent_id'')) children =
       [Some (MStr (ascii ''id-0'')), Some (MStr (ascii ''id-2'')), Some (MStr (ascii ''id-2''))]"
  by (simp add: create_parent_child_chunks_def short_doc_def new_circular_def stub_chunk_env_def
      parent_split_def child_split_def halves_split_def counter_uuid_def meta_base_def
      py_strip_def is_space_def ascii_def Let_def)


theorem children_point_to_their_parent_witness:
  "(\<exists>parents children.
      create_parent_child_chunks stub_chunk_env short_doc 0 = ((parents, children), 5) \<and>
      map chunk_id parents = [ascii ''id-0'', ascii ''id-2''] \<and>
      map (\<lambda>c. map_of (chunk_metadata c) (ascii ''parent_id'')) children =
        [Some (MStr (ascii ''id-0'')), Some (MStr (ascii ''id-2'')), Some (MStr (ascii ''id-2''))] \<and>
      list_all (\<lambda>c. list_ex (\<lambda>p.
          map_of (chunk_metadata c) (ascii ''parent_id'') = Some (MStr (chunk_id p)) \<and>
          chunk_text c \<in> set (child_split stub_chunk_env (chunk_text p))) parents) children) \<and>
   list_all is_space (full_text blank_doc) \<and>
   fst (create_parent_child_chunks stub_chunk_env blank_doc 0) = ([], [])"
proof -
  from short_doc_chunks obtain parents children where
    run: "create_parent_child_chunks stub_chunk_env short_doc 0 = ((parents, children), 5)"
    and ids: "map chunk_id parents = [ascii ''id-0'', ascii ''id-2'']"
    and pids: "map (\<lambda>c. map_of (chunk_metadata c) (ascii ''parent_id'')) children =
        [Some (MStr (ascii ''id-0'')), Some (MStr (ascii ''id-2'')), Some (MStr (ascii ''id-2''))]"
    by (elim exE conjE)
  from children_point_to_their_parent [OF run]
  have "list_all (\<lambda>c. list_ex (\<lambda>p.
          map_of (chunk_metadata c) (ascii ''parent_id'') = Some (MStr (chunk_id p)) \<and>
          chunk_text c \<in> set (child_split stub_chunk_env (chunk_text p))) parents) children"
    by (simp add: list_all_iff list_ex_iff)
  with run ids pids have first: "\<exists>parents children.
      create_parent_child_chunks stub_chunk_env short_doc 0 = ((parents, children), 5) \<and>
      map chunk_id parents = [ascii ''id-0'', ascii ''id-2''] \<and>
      map (\<lambda>c. map_of (chunk_metadata c) (ascii ''parent_id'')) children =
        [Some (MStr (ascii ''id-0'')), Some (MStr (ascii ''id-2'')), Some (MStr (ascii ''id-2''))] \<and>
      list_all (\<lambda>c. list_ex (\<lambda>p.
          map_of (chunk_metadata c) (ascii ''parent_id'') = Some (MStr (chunk_id p)) \<and>
          chunk_text c \<in> set (child_split stub_chunk_env (chunk_text p))) parents) children"
    by (intro exI conjI) assumption+
  have blank: "\<forall>x \<in> set (full_text blank_doc). is_space x"
    by (simp add: blank_doc_def is_space_def)
  obtain ps cs s' where b: "create_parent_child_chunks stub_chunk_env blank_doc 0 = ((ps, cs), s')"
    by (metis prod.exhaust)
  from children_point_to_their_parent [OF b] blank have "ps = [] \<and> cs = []" by blast
  with b have none: "fst (create_parent_child_chunks stub_chunk_env blank_doc 0) = ([], [])" by simp
  from blank have "list_all is_space (full_text blank_doc)" by (simp add: list_all_iff)
  with first none show ?thesis by blast
qed

theorem child_text_within_parent_witness:
  "(\<forall>chunk_size overlap seps t. list_all (\<lambda>piece. contains piece t)
      (split_text stub_chunk_env chunk_size overlap seps t)) \<and>
   (\<exists>parents children.
      create_parent_child_chunks stub_chunk_env short_doc 0 = ((parents, children), 5) \<and>
      map chunk_text parents = [ascii ''Funds di'', ascii ''disclose.''] \<and>
      map chunk_text children = [ascii ''Funds di'', ascii ''discl'', ascii ''close.''] \<and>
      list_all (\<lambda>c. list_ex (\<lambda>p.
          map_of (chunk_metadata c) (ascii ''parent_id'') = Some (MStr (chunk_id p)) \<and>
          contains (chunk_text c) (chunk_text p)) parents) children)"
proof -
  from short_doc_chunks obtain parents children where
    run: "create_parent_child_chunks stub_chunk_env short_doc 0 = ((parents, children), 5)"
    and pt: "map chunk_text parents = [ascii ''Funds di'', ascii ''disclose.'']"
    and ct: "map chunk_text children = [ascii ''Funds di'', ascii ''discl'', ascii ''close.'']"
    by (elim exE conjE)
  from child_text_within_parent [OF halves_split_contains run]
  have "list_all (\<lambda>c. list_ex (\<lambda>p.
          map_of (chunk_metadata c) (ascii ''parent_id'') = Some (MStr (chunk_id p)) \<and>
          contains (chunk_text c) (chunk_text p)) parents) children"
    by (simp add: list_all_iff list_ex_iff)
  with run pt ct have "\<exists>parents children.
      create_parent_child_chunks stub_chunk_env short_doc 0 = ((parents, children), 5) \<and>
      map chunk_text parents = [ascii ''Funds di'', ascii ''disclose.''] \<and>
      map chunk_text children = [ascii ''Funds di'', ascii ''discl'', ascii ''close.''] \<and>
      list_all (\<lambda>c. list_ex (\<lambda>p.
          map_of (chunk_metadata c) (ascii ''parent_id'') = Some (MStr (chunk_id p)) \<and>
          contains (chunk_text c) (chunk_text p)) parents) children"
    by (intro exI conjI) assumption+
  moreover from halves_split_contains
  have "\<forall>chunk_size overlap seps t. list_all (\<lambda>piece. contains piece t)
      (split_text stub_chunk_env chunk_size overlap seps t)"
    by (simp add: list_all_iff)
  ultimately show ?thesis by blast
qed

end
